theory Spec2Isabelle
  imports Main "HOL-Library.Word" "HOL-Library.AList" "HOL-Library.Multiset"
begin

section \<open>The planner of external-dns (plan/plan.go)\<close>

text \<open>
  A shallow embedding of \<^verbatim>\<open>plan/plan.go\<close>. The planner works on pointers to endpoint
  records and writes through them (\<^verbatim>\<open>inheritOwner\<close>, the migration branch), so the records
  and their label maps live in an explicit store and every function that reads or writes a
  record takes the store. A Go panic is a value of type \<open>panic\<close>; a function that may panic
  returns \<open>panic + 'a\<close>.
\<close>

subsection \<open>Endpoints, the store, slices\<close>

text \<open>
  The fields of \<^verbatim>\<open>endpoint.Endpoint\<close> that the planner reads. \<open>Labels\<close> is a Go map, that is
  a reference: \<open>None\<close> is the nil map and \<open>Some m\<close> refers to the map object at address \<open>m\<close>
  of the store, which two records may share. The targets and the provider-specific
  properties are slices that \<^verbatim>\<open>plan.go\<close> only reads, so they are held by value. A
  provider-specific property is a name and a value. \<open>RecordTTL\<close> is an \<^verbatim>\<open>int64\<close>.
\<close>

type_synonym TTL = "64 word"

record ProviderSpecificProperty =
  Name :: string
  Value :: string

record Endpoint =
  DNSName :: string
  Targets :: "string list"
  RecordType :: string
  SetIdentifier :: string
  RecordTTL :: TTL
  Labels :: "nat option"
  ProviderSpecific :: "ProviderSpecificProperty list"

text \<open>
  The store holds the allocated records and the allocated label maps. An address is an
  index, and a pointer \<^verbatim>\<open>*endpoint.Endpoint\<close> is nil (\<open>None\<close>) or the address of a record.
  New records and new maps are allocated at the end.
\<close>

record heap =
  recs :: "Endpoint list"
  labelMaps :: "(string \<rightharpoonup> string) list"

type_synonym ptr = "nat option"

datatype panic = NilPointerDereference | NilMapAssignment

text \<open>The label map of a record as a value: nil, or the content of the map it refers to.\<close>

definition labelsOf :: "heap \<Rightarrow> Endpoint \<Rightarrow> (string \<rightharpoonup> string) option" where
  "labelsOf h e = (case Labels e of None \<Rightarrow> None | Some m \<Rightarrow> Some (labelMaps h ! m))"

text \<open>
  A slice that the code compares with nil, or returns as nil, is \<open>None\<close> when nil and
  \<open>Some xs\<close> otherwise. \<open>append1\<close> is \<^verbatim>\<open>append(s, x)\<close> and \<open>appendAll\<close> is
  \<^verbatim>\<open>append(s, xs...)\<close>, which returns \<open>s\<close> itself when there is nothing to add.
  Slices that are only ranged over or measured (the lists of a plan, the candidates of a
  row, the properties of an endpoint) are plain lists: a nil slice and an empty one behave
  alike there.
\<close>

type_synonym 'a slice = "'a list option"

definition elems :: "'a slice \<Rightarrow> 'a list" where
  "elems s = (case s of None \<Rightarrow> [] | Some xs \<Rightarrow> xs)"

definition len :: "'a slice \<Rightarrow> nat" where
  "len s = length (elems s)"

definition append1 :: "'a slice \<Rightarrow> 'a \<Rightarrow> 'a slice" where
  "append1 s x = Some (elems s @ [x])"

definition appendAll :: "'a slice \<Rightarrow> 'a list \<Rightarrow> 'a slice" where
  "appendAll s xs = (if xs = [] then s else Some (elems s @ xs))"

text \<open>
  Reading a Go map: \<open>lookupOk\<close> is the two-valued form \<^verbatim>\<open>v, ok := m[k]\<close> (\<open>None\<close> when
  \<^verbatim>\<open>ok\<close> is false), \<open>lookup\<close> the one-valued form \<^verbatim>\<open>m[k]\<close>, which gives the empty string
  for a missing key. Both accept the nil map.
\<close>

definition lookupOk :: "(string \<rightharpoonup> string) option \<Rightarrow> string \<Rightarrow> string option" where
  "lookupOk m k = (case m of None \<Rightarrow> None | Some f \<Rightarrow> f k)"

definition lookup :: "(string \<rightharpoonup> string) option \<Rightarrow> string \<Rightarrow> string" where
  "lookup m k = (case lookupOk m k of None \<Rightarrow> '''' | Some v \<Rightarrow> v)"

text \<open>
  Modelled from the spec: the constants \<^verbatim>\<open>OwnerLabelKey\<close> and \<^verbatim>\<open>RecordTypeA\<close>,
  \<^verbatim>\<open>RecordTypeAAAA\<close>, \<^verbatim>\<open>RecordTypeCNAME\<close>, \<^verbatim>\<open>RecordTypeTXT\<close> of package \<^verbatim>\<open>endpoint\<close>, which
  is not among the sources. The spec speaks of the reserved key under which the label map
  carries the owner, and of the address, quad-A, alias and text types; it does not spell
  them, and no theorem depends on the spelling chosen here.
\<close>

definition OwnerLabelKey :: string where "OwnerLabelKey = ''owner''"
definition RecordTypeA :: string where "RecordTypeA = ''A''"
definition RecordTypeAAAA :: string where "RecordTypeAAAA = ''AAAA''"
definition RecordTypeCNAME :: string where "RecordTypeCNAME = ''CNAME''"
definition RecordTypeTXT :: string where "RecordTypeTXT = ''TXT''"

subsection \<open>Plan, Changes and the grouping table\<close>

record Changes =
  Create :: "ptr slice"
  UpdateOld :: "ptr slice"
  UpdateNew :: "ptr slice"
  Delete :: "ptr slice"

text \<open>
  \<open>DomainFilter\<close> is an interface value, nil (\<open>None\<close>) or a filter, of which the planner
  uses the method \<^verbatim>\<open>Match\<close>. \<open>PropertyComparator\<close> is a function value, which may be nil.
  A policy is its method \<^verbatim>\<open>Apply\<close>. \<open>Changes\<close> is a pointer, nil until \<^verbatim>\<open>Calculate\<close> has
  filled it in.
\<close>

type_synonym PropertyComparator = "string \<Rightarrow> string \<Rightarrow> string \<Rightarrow> bool"
type_synonym Policy = "Changes \<Rightarrow> Changes"

record Plan =
  Current :: "ptr list"
  Desired :: "ptr list"
  Missing :: "ptr list"
  Policies :: "Policy list"
  Changes :: "Changes option"
  DomainFilter :: "(string \<Rightarrow> bool) option"
  PropertyComparator :: "PropertyComparator option"
  ManagedRecords :: "string list"
  TXTOwner :: string
  HasMig :: bool
  TXTOwnerMigrate :: bool
  TXTOwnerOld :: string

record planKey =
  dnsName :: string
  setIdentifier :: string
  recordType :: string

record planTableRow =
  current :: ptr
  candidates :: "ptr list"

text \<open>
  The rows of the table, \<^verbatim>\<open>map[planKey]*planTableRow\<close>, as an association list with one
  entry for each key, a new key going to the end.
\<close>

type_synonym planTable = "(planKey \<times> planTableRow) list"

text \<open>
  What \<^verbatim>\<open>Calculate\<close> uses and \<^verbatim>\<open>plan.go\<close> does not define is a parameter of the model:
  \<^item> the two methods of the conflict resolver (\<^verbatim>\<open>newPlanTable\<close> installs \<^verbatim>\<open>PerResource{}\<close>),
    which read the records they choose from;
  \<^item> \<^verbatim>\<open>TTL.IsConfigured\<close> and \<^verbatim>\<open>Targets.Same\<close> of package \<^verbatim>\<open>endpoint\<close>;
  \<^item> the order in which \<^verbatim>\<open>range\<close> visits the rows of the table, which Go leaves
    unspecified: \<open>rangeOrder\<close> rearranges the rows;
  \<^item> what \<^verbatim>\<open>strings.ToLower\<close> and \<^verbatim>\<open>strings.TrimSpace\<close> of the standard library return for
    a string that is not pure ASCII, where they work on the code points of Unicode.

  All of them are functions of their arguments, the resolver of the store as well: they
  return a value and write nothing. That \<^verbatim>\<open>Targets.Same\<close>, for one, leaves the two lists
  of targets in the order it found them cannot be read off \<^verbatim>\<open>plan.go\<close>; it is how the
  model takes it.
\<close>

record Env =
  ResolveCreate :: "heap \<Rightarrow> ptr list \<Rightarrow> ptr"
  ResolveUpdate :: "heap \<Rightarrow> ptr \<Rightarrow> ptr list \<Rightarrow> ptr"
  IsConfigured :: "TTL \<Rightarrow> bool"
  Same :: "string list \<Rightarrow> string list \<Rightarrow> bool"
  rangeOrder :: "planTable \<Rightarrow> planTable"
  ToLowerUnicode :: "string \<Rightarrow> string"
  TrimSpaceUnicode :: "string \<Rightarrow> string"

subsection \<open>Strings\<close>

text \<open>
  A Go string is a byte sequence. On a string of ASCII bytes \<^verbatim>\<open>strings.ToLower\<close> maps the
  letters A to Z to a to z and \<^verbatim>\<open>strings.TrimSpace\<close> removes the leading and trailing tab,
  line feed, vertical tab, form feed, carriage return and space. On any other string they
  decode UTF-8: every Unicode letter is lower-cased, an ill-formed byte is replaced, and the
  white space of Unicode is removed as well. What they return there is given by the
  environment.
\<close>

definition isASCII :: "string \<Rightarrow> bool" where
  "isASCII s = list_all (\<lambda>c. (of_char c :: nat) < 128) s"

definition isUpper :: "char \<Rightarrow> bool" where
  "isUpper c = (65 \<le> (of_char c :: nat) \<and> (of_char c :: nat) \<le> 90)"

definition toLowerChar :: "char \<Rightarrow> char" where
  "toLowerChar c = (if isUpper c then char_of ((of_char c :: nat) + 32) else c)"

definition isSpace :: "char \<Rightarrow> bool" where
  "isSpace c = ((of_char c :: nat) \<in> {9, 10, 11, 12, 13, 32})"

definition ToLowerASCII :: "string \<Rightarrow> string" where
  "ToLowerASCII s = map toLowerChar s"

definition TrimSpaceASCII :: "string \<Rightarrow> string" where
  "TrimSpaceASCII s = rev (dropWhile isSpace (rev (dropWhile isSpace s)))"

definition ToLower :: "Env \<Rightarrow> string \<Rightarrow> string" where
  "ToLower env s = (if isASCII s then ToLowerASCII s else ToLowerUnicode env s)"

definition TrimSpace :: "Env \<Rightarrow> string \<Rightarrow> string" where
  "TrimSpace env s = (if isASCII s then TrimSpaceASCII s else TrimSpaceUnicode env s)"

definition HasSuffix :: "string \<Rightarrow> string \<Rightarrow> bool" where
  "HasSuffix s suf = (length suf \<le> length s \<and> drop (length s - length suf) s = suf)"

text \<open>\<^verbatim>\<open>normalizeDNSName\<close>, lines 332 to 338.\<close>

definition normalizeDNSName :: "Env \<Rightarrow> string \<Rightarrow> string" where
  "normalizeDNSName env dnsName' =
     (let s = TrimSpace env (ToLower env dnsName')
      in if \<not> HasSuffix s ''.'' then s @ ''.'' else s)"

text \<open>The number of dots at the end of a name, to speak about the trailing separator.\<close>

definition trailingDots :: "string \<Rightarrow> nat" where
  "trailingDots s = length (takeWhile (\<lambda>c. c = CHR ''.'') (rev s))"

subsection \<open>The grouping table\<close>

text \<open>\<^verbatim>\<open>newPlanTable\<close>, \<^verbatim>\<open>newPlanKey\<close>, \<^verbatim>\<open>addCurrent\<close>, \<^verbatim>\<open>addCandidate\<close>, lines 101 to 137.\<close>

definition newPlanTable :: planTable where
  "newPlanTable = []"

definition newPlanKey :: "Env \<Rightarrow> planTable \<Rightarrow> Endpoint \<Rightarrow> planKey \<times> planTable" where
  "newPlanKey env t e =
     (let key = \<lparr>dnsName = normalizeDNSName env (DNSName e),
                 setIdentifier = SetIdentifier e,
                 recordType = RecordType e\<rparr>
      in (key, if map_of t key = None
               then t @ [(key, \<lparr>current = None, candidates = []\<rparr>)]
               else t))"

definition addCurrent :: "Env \<Rightarrow> heap \<Rightarrow> planTable \<Rightarrow> ptr \<Rightarrow> panic + planTable" where
  "addCurrent env h t e =
     (case e of
        None \<Rightarrow> Inl NilPointerDereference
      | Some a \<Rightarrow>
          (case newPlanKey env t (recs h ! a) of
             (key, t') \<Rightarrow> Inr (AList.map_entry key (\<lambda>row. row\<lparr>current := e\<rparr>) t')))"

definition addCandidate :: "Env \<Rightarrow> heap \<Rightarrow> planTable \<Rightarrow> ptr \<Rightarrow> panic + planTable" where
  "addCandidate env h t e =
     (case e of
        None \<Rightarrow> Inl NilPointerDereference
      | Some a \<Rightarrow>
          (case newPlanKey env t (recs h ! a) of
             (key, t') \<Rightarrow>
               Inr (AList.map_entry key (\<lambda>row. row\<lparr>candidates := candidates row @ [e]\<rparr>) t')))"

text \<open>The two loops of lines 156 to 161.\<close>

fun addCurrents :: "Env \<Rightarrow> heap \<Rightarrow> planTable \<Rightarrow> ptr list \<Rightarrow> panic + planTable" where
  "addCurrents env h t [] = Inr t"
| "addCurrents env h t (e # es) =
     (case addCurrent env h t e of Inl x \<Rightarrow> Inl x | Inr t' \<Rightarrow> addCurrents env h t' es)"

fun addCandidates :: "Env \<Rightarrow> heap \<Rightarrow> planTable \<Rightarrow> ptr list \<Rightarrow> panic + planTable" where
  "addCandidates env h t [] = Inr t"
| "addCandidates env h t (e # es) =
     (case addCandidate env h t e of Inl x \<Rightarrow> Inl x | Inr t' \<Rightarrow> addCandidates env h t' es)"

subsection \<open>The filters\<close>

text \<open>\<^verbatim>\<open>IsManagedRecord\<close>, lines 365 to 372.\<close>

fun IsManagedRecord :: "string \<Rightarrow> string list \<Rightarrow> bool" where
  "IsManagedRecord record [] = False"
| "IsManagedRecord record (r # managedRecords) =
     (if record = r then True else IsManagedRecord record managedRecords)"

text \<open>
  \<^verbatim>\<open>filterRecordsForPlan\<close>, lines 313 to 328. The loop reads \<^verbatim>\<open>record.DNSName\<close> of every
  element in turn, so a nil element panics.
\<close>

fun filterRecordsForPlan ::
  "heap \<Rightarrow> ptr list \<Rightarrow> (string \<Rightarrow> bool) \<Rightarrow> string list \<Rightarrow> panic + ptr list" where
  "filterRecordsForPlan h [] domainFilter managedRecords = Inr []"
| "filterRecordsForPlan h (record # records) domainFilter managedRecords =
     (case record of
        None \<Rightarrow> Inl NilPointerDereference
      | Some a \<Rightarrow>
          (case filterRecordsForPlan h records domainFilter managedRecords of
             Inl x \<Rightarrow> Inl x
           | Inr filtered \<Rightarrow>
               if \<not> domainFilter (DNSName (recs h ! a)) then Inr filtered
               else if IsManagedRecord (RecordType (recs h ! a)) managedRecords
                    then Inr (record # filtered)
                    else Inr filtered))"

text \<open>\<^verbatim>\<open>slices.Contains\<close> of the Kubernetes utilities: whether a string is in a slice.\<close>

fun Contains :: "string list \<Rightarrow> string \<Rightarrow> bool" where
  "Contains [] v = False"
| "Contains (x # s) v = (if x = v then True else Contains s v)"

text \<open>
  \<^verbatim>\<open>filterOwnedRecords\<close>, lines 284 to 304: the loop, then the nil result for an empty
  selection.
\<close>

fun ownedLoop :: "heap \<Rightarrow> string list \<Rightarrow> ptr list \<Rightarrow> panic + ptr list" where
  "ownedLoop h ownerIDs [] = Inr []"
| "ownedLoop h ownerIDs (ep # eps) =
     (case ep of
        None \<Rightarrow> Inl NilPointerDereference
      | Some a \<Rightarrow>
          (case ownedLoop h ownerIDs eps of
             Inl x \<Rightarrow> Inl x
           | Inr filtered \<Rightarrow>
               (case lookupOk (labelsOf h (recs h ! a)) OwnerLabelKey of
                  None \<Rightarrow> Inr filtered
                | Some endpointOwner \<Rightarrow>
                    if \<not> Contains ownerIDs endpointOwner then Inr filtered
                    else Inr (ep # filtered))))"

definition filterOwnedRecords ::
  "heap \<Rightarrow> string \<Rightarrow> string \<Rightarrow> bool \<Rightarrow> ptr slice \<Rightarrow> panic + ptr slice" where
  "filterOwnedRecords h ownerID ownerIDOld migrate eps =
     (let ownerIDs = (if migrate then [ownerID] @ [ownerIDOld] else [ownerID])
      in case ownedLoop h ownerIDs (elems eps) of
           Inl x \<Rightarrow> Inl x
         | Inr filtered \<Rightarrow> if length filtered = 0 then Inr None else Inr (Some filtered))"

subsection \<open>The predicates of the change detector\<close>

text \<open>\<^verbatim>\<open>targetChanged\<close> and \<^verbatim>\<open>shouldUpdateTTL\<close>, lines 239 to 248, on the records pointed to.\<close>

definition targetChanged :: "Env \<Rightarrow> Endpoint \<Rightarrow> Endpoint \<Rightarrow> bool" where
  "targetChanged env desired cur = (\<not> Same env (Targets desired) (Targets cur))"

definition shouldUpdateTTL :: "Env \<Rightarrow> Endpoint \<Rightarrow> Endpoint \<Rightarrow> bool" where
  "shouldUpdateTTL env desired cur =
     (if \<not> IsConfigured env (RecordTTL desired) then False
      else RecordTTL desired \<noteq> RecordTTL cur)"

text \<open>
  \<^verbatim>\<open>shouldUpdateProviderSpecific\<close>, lines 250 to 281: the map of the desired properties
  (a later property of the same name replaces an earlier one), then the loop over the
  current properties, which returns at the first mismatch.
\<close>

fun desiredPropertiesLoop ::
  "ProviderSpecificProperty list \<Rightarrow> (string \<rightharpoonup> ProviderSpecificProperty)
     \<Rightarrow> (string \<rightharpoonup> ProviderSpecificProperty)" where
  "desiredPropertiesLoop [] desiredProperties = desiredProperties"
| "desiredPropertiesLoop (d # ds) desiredProperties =
     desiredPropertiesLoop ds (desiredProperties(Name d \<mapsto> d))"

fun currentPropertiesLoop ::
  "PropertyComparator option \<Rightarrow> (string \<rightharpoonup> ProviderSpecificProperty)
     \<Rightarrow> ProviderSpecificProperty list \<Rightarrow> bool" where
  "currentPropertiesLoop cmp desiredProperties [] = False"
| "currentPropertiesLoop cmp desiredProperties (c # cs) =
     (case desiredProperties (Name c) of
        Some d \<Rightarrow>
          (case cmp of
             Some f \<Rightarrow>
               if \<not> f (Name c) (Value c) (Value d) then True
               else currentPropertiesLoop cmp desiredProperties cs
           | None \<Rightarrow>
               if Value c \<noteq> Value d then True
               else currentPropertiesLoop cmp desiredProperties cs)
      | None \<Rightarrow>
          (case cmp of
             Some f \<Rightarrow>
               if \<not> f (Name c) (Value c) '''' then True
               else currentPropertiesLoop cmp desiredProperties cs
           | None \<Rightarrow>
               if Value c \<noteq> '''' then True
               else currentPropertiesLoop cmp desiredProperties cs))"

definition shouldUpdateProviderSpecific :: "Plan \<Rightarrow> Endpoint \<Rightarrow> Endpoint \<Rightarrow> bool" where
  "shouldUpdateProviderSpecific p desired cur =
     currentPropertiesLoop (PropertyComparator p)
       (desiredPropertiesLoop (ProviderSpecific desired) Map.empty)
       (ProviderSpecific cur)"

subsection \<open>The change detector\<close>

text \<open>
  Two writes through a record: \<open>makeLabels\<close> is \<^verbatim>\<open>x.Labels = map[string]string{}\<close>, which
  allocates an empty map and stores its address in the record at address \<open>a\<close>, and
  \<open>setLabel\<close> is \<^verbatim>\<open>x.Labels[k] = v\<close> on the map object at address \<open>m\<close>, seen by every record
  that refers to this map.
\<close>

definition makeLabels :: "heap \<Rightarrow> nat \<Rightarrow> heap" where
  "makeLabels h a =
     \<lparr>recs = (recs h)[a := (recs h ! a)\<lparr>Labels := Some (length (labelMaps h))\<rparr>],
      labelMaps = labelMaps h @ [Map.empty]\<rparr>"

definition setLabel :: "heap \<Rightarrow> nat \<Rightarrow> string \<Rightarrow> string \<Rightarrow> heap" where
  "setLabel h m k v = h\<lparr>labelMaps := (labelMaps h)[m := (labelMaps h ! m)(k \<mapsto> v)]\<rparr>"

text \<open>
  \<^verbatim>\<open>inheritOwner\<close>, lines 229 to 237, on the addresses of two records: a nil label map is
  replaced by a new empty one, in \<open>to\<close> and then in \<open>from\<close>, and the owner label of \<open>from\<close>,
  as the one-valued map read gives it, is written into the map of \<open>to\<close>.
\<close>

definition inheritOwner :: "heap \<Rightarrow> nat \<Rightarrow> nat \<Rightarrow> panic + heap" where
  "inheritOwner h from to =
     (let h1 = (if Labels (recs h ! to) = None then makeLabels h to else h);
          h2 = (if Labels (recs h1 ! from) = None then makeLabels h1 from else h1)
      in case Labels (recs h2 ! to) of
           None \<Rightarrow> Inl NilMapAssignment
         | Some m \<Rightarrow>
             Inr (setLabel h2 m OwnerLabelKey
                    (lookup (labelsOf h2 (recs h2 ! from)) OwnerLabelKey)))"

text \<open>
  Modelled from the spec: \<^verbatim>\<open>Endpoint.DeepCopy\<close> of package \<^verbatim>\<open>endpoint\<close>, which is not among
  the sources; the spec calls its result a deep copy of the record. It is a new record with
  the fields of the old one, at the next free address; a label map that is not nil is
  copied into a new map, and the nil map stays nil.
\<close>

definition DeepCopy :: "heap \<Rightarrow> nat \<Rightarrow> nat \<times> heap" where
  "DeepCopy h a =
     (case Labels (recs h ! a) of
        None \<Rightarrow> (length (recs h), h\<lparr>recs := recs h @ [recs h ! a]\<rparr>)
      | Some m \<Rightarrow>
          (length (recs h),
           \<lparr>recs = recs h @ [(recs h ! a)\<lparr>Labels := Some (length (labelMaps h))\<rparr>],
            labelMaps = labelMaps h @ [labelMaps h ! m]\<rparr>))"

text \<open>
  The state of the loop over the rows: the store, \<^verbatim>\<open>changes\<close> and \<^verbatim>\<open>hasMig\<close>.
\<close>

type_synonym loopState = "heap \<times> Changes \<times> bool"

text \<open>
  The body of the migration branch, lines 176 to 189, for the current record at address
  \<open>a\<close>. Writing a label into the nil map of the copy panics.
\<close>

definition migrateRow :: "Plan \<Rightarrow> nat \<Rightarrow> loopState \<Rightarrow> panic + loopState" where
  "migrateRow p a st =
     (case st of (h, changes, hasMig) \<Rightarrow>
        (case DeepCopy h a of (update, h') \<Rightarrow>
           (case Labels (recs h' ! update) of
              None \<Rightarrow> Inl NilMapAssignment
            | Some m \<Rightarrow>
                Inr (setLabel h' m OwnerLabelKey (TXTOwner p),
                     changes\<lparr>UpdateNew := append1 (UpdateNew changes) (Some update),
                             UpdateOld := append1 (UpdateOld changes) (Some a)\<rparr>,
                     True))))"

text \<open>
  The body of the update branch, lines 194 to 201. The predicates read the record that the
  resolver returned, so a nil result panics.
\<close>

definition updateRow ::
  "Env \<Rightarrow> Plan \<Rightarrow> nat \<Rightarrow> ptr list \<Rightarrow> loopState \<Rightarrow> panic + loopState" where
  "updateRow env p a cands st =
     (case st of (h, changes, hasMig) \<Rightarrow>
        (case ResolveUpdate env h (Some a) cands of
           None \<Rightarrow> Inl NilPointerDereference
         | Some update \<Rightarrow>
             if shouldUpdateTTL env (recs h ! update) (recs h ! a)
                \<or> targetChanged env (recs h ! update) (recs h ! a)
                \<or> shouldUpdateProviderSpecific p (recs h ! update) (recs h ! a)
             then (case inheritOwner h a update of
                     Inl x \<Rightarrow> Inl x
                   | Inr h' \<Rightarrow>
                       Inr (h',
                            changes\<lparr>UpdateNew := append1 (UpdateNew changes) (Some update),
                                    UpdateOld := append1 (UpdateOld changes) (Some a)\<rparr>,
                            hasMig))
             else Inr (h, changes, hasMig)))"

text \<open>The body of the loop over the rows, lines 167 to 202.\<close>

definition rowStep :: "Env \<Rightarrow> Plan \<Rightarrow> planTableRow \<Rightarrow> loopState \<Rightarrow> panic + loopState" where
  "rowStep env p row st =
     (case st of (h, changes, hasMig) \<Rightarrow>
        (let changes1 =
               (if current row = None
                then changes\<lparr>Create :=
                       append1 (Create changes) (ResolveCreate env h (candidates row))\<rparr>
                else changes);
             changes2 =
               (if current row \<noteq> None \<and> length (candidates row) = 0
                then changes1\<lparr>Delete := append1 (Delete changes1) (current row)\<rparr>
                else changes1)
         in case current row of
              None \<Rightarrow> Inr (h, changes2, hasMig)
            | Some a \<Rightarrow>
                if TXTOwnerMigrate p \<and> length (candidates row) > 0
                   \<and> lookup (labelsOf h (recs h ! a)) OwnerLabelKey = TXTOwnerOld p
                then migrateRow p a (h, changes2, hasMig)
                else if length (candidates row) > 0
                then updateRow env p a (candidates row) (h, changes2, hasMig)
                else Inr (h, changes2, hasMig)))"

fun rowsLoop :: "Env \<Rightarrow> Plan \<Rightarrow> planTable \<Rightarrow> loopState \<Rightarrow> panic + loopState" where
  "rowsLoop env p [] st = Inr st"
| "rowsLoop env p (kr # rows) st =
     (case rowStep env p (snd kr) st of
        Inl x \<Rightarrow> Inl x
      | Inr st' \<Rightarrow> rowsLoop env p rows st')"

subsection \<open>Calculate\<close>

text \<open>
  Modelled from the spec: \<^verbatim>\<open>endpoint.MatchAllDomainFilters(nil)\<close>, which is not among the
  sources; the spec says that a nil domain filter defaults to one that matches everything.
\<close>

definition MatchAllDomainFilters :: "string \<Rightarrow> bool" where
  "MatchAllDomainFilters name = True"

text \<open>Lines 152 to 154: the receiver gets the default filter when it has none.\<close>

definition defaultDomainFilter :: "Plan \<Rightarrow> Plan" where
  "defaultDomainFilter p =
     (if DomainFilter p = None then p\<lparr>DomainFilter := Some MatchAllDomainFilters\<rparr> else p)"

definition Match :: "Plan \<Rightarrow> string \<Rightarrow> bool" where
  "Match p = (case DomainFilter p of None \<Rightarrow> MatchAllDomainFilters | Some f \<Rightarrow> f)"

text \<open>Lines 150 and 156 to 161: the table of the filtered current and desired records.\<close>

definition buildTable :: "Env \<Rightarrow> Plan \<Rightarrow> heap \<Rightarrow> panic + planTable" where
  "buildTable env p h =
     (case filterRecordsForPlan h (Current p) (Match p) (ManagedRecords p) of
        Inl x \<Rightarrow> Inl x
      | Inr currents \<Rightarrow>
          (case addCurrents env h newPlanTable currents of
             Inl x \<Rightarrow> Inl x
           | Inr t \<Rightarrow>
               (case filterRecordsForPlan h (Desired p) (Match p) (ManagedRecords p) of
                  Inl x \<Rightarrow> Inl x
                | Inr desireds \<Rightarrow> addCandidates env h t desireds)))"

definition emptyChanges :: Changes where
  "emptyChanges = \<lparr>Create = None, UpdateOld = None, UpdateNew = None, Delete = None\<rparr>"

text \<open>Lines 163 to 203: the loop, from the empty changes, in the order of \<open>rangeOrder\<close>.\<close>

definition detectChanges :: "Env \<Rightarrow> Plan \<Rightarrow> heap \<Rightarrow> planTable \<Rightarrow> panic + loopState" where
  "detectChanges env p h t = rowsLoop env p (rangeOrder env t) (h, emptyChanges, False)"

text \<open>Lines 204 to 206: the policies, in their order.\<close>

fun applyPolicies :: "Policy list \<Rightarrow> Changes \<Rightarrow> Changes" where
  "applyPolicies [] changes = changes"
| "applyPolicies (pol # pols) changes = applyPolicies pols (pol changes)"

text \<open>Lines 209 to 211: the missing records that pass the filter are added to \<open>Create\<close>.\<close>

definition addMissing :: "Plan \<Rightarrow> heap \<Rightarrow> Changes \<Rightarrow> panic + Changes" where
  "addMissing p h changes =
     (if length (Missing p) > 0
      then (case filterRecordsForPlan h (Missing p) (Match p)
                   (ManagedRecords p @ [RecordTypeTXT]) of
              Inl x \<Rightarrow> Inl x
            | Inr missing \<Rightarrow> Inr (changes\<lparr>Create := appendAll (Create changes) missing\<rparr>))
      else Inr changes)"

text \<open>Lines 216 to 221: the changes of the returned plan.\<close>

definition finalChanges :: "Plan \<Rightarrow> heap \<Rightarrow> Changes \<Rightarrow> panic + Changes" where
  "finalChanges p h changes =
     (case filterOwnedRecords h (TXTOwner p) (TXTOwnerOld p) (TXTOwnerMigrate p)
             (UpdateNew changes) of
        Inl x \<Rightarrow> Inl x
      | Inr updateNew \<Rightarrow>
          (case filterOwnedRecords h (TXTOwner p) (TXTOwnerOld p) (TXTOwnerMigrate p)
                  (UpdateOld changes) of
             Inl x \<Rightarrow> Inl x
           | Inr updateOld \<Rightarrow>
               (case filterOwnedRecords h (TXTOwner p) (TXTOwnerOld p) (TXTOwnerMigrate p)
                       (Delete changes) of
                  Inl x \<Rightarrow> Inl x
                | Inr delete \<Rightarrow>
                    Inr \<lparr>Create = Create changes, UpdateOld = updateOld,
                         UpdateNew = updateNew, Delete = delete\<rparr>)))"

text \<open>
  What a call of \<^verbatim>\<open>Calculate\<close> leaves behind: the plan it returns, the receiver and the
  store as they are afterwards.
\<close>

record Outcome =
  returned :: Plan
  receiver :: Plan
  store :: heap

text \<open>
  \<^verbatim>\<open>Calculate\<close>, lines 149 to 227. The returned plan is built from a literal that names
  five fields; the others have their zero values.
\<close>

definition Calculate :: "Env \<Rightarrow> Plan \<Rightarrow> heap \<Rightarrow> panic + Outcome" where
  "Calculate env p0 h =
     (let p = defaultDomainFilter p0
      in case buildTable env p h of
           Inl x \<Rightarrow> Inl x
         | Inr t \<Rightarrow>
             (case detectChanges env p h t of
                Inl x \<Rightarrow> Inl x
              | Inr (h', raw, hasMig) \<Rightarrow>
                  (case addMissing p h' (applyPolicies (Policies p) raw) of
                     Inl x \<Rightarrow> Inl x
                   | Inr changes \<Rightarrow>
                       (case finalChanges p h' changes of
                          Inl x \<Rightarrow> Inl x
                        | Inr final \<Rightarrow>
                            Inr \<lparr>returned =
                                   \<lparr>Current = Current p, Desired = Desired p, Missing = [],
                                    Policies = [], Changes = Some final,
                                    DomainFilter = None, PropertyComparator = None,
                                    ManagedRecords =
                                      [RecordTypeA, RecordTypeAAAA, RecordTypeCNAME],
                                    TXTOwner = '''', HasMig = hasMig,
                                    TXTOwnerMigrate = False, TXTOwnerOld = ''''\<rparr>,
                                 receiver = p, store = h'\<rparr>))))"

subsection \<open>Notions of the specification\<close>

text \<open>
  The accepted owners of the ownership filter, and what it is for a pointer, and for every
  element of a slice, to point to a record whose owner label is present and accepted.
\<close>

definition acceptedOwners :: "Plan \<Rightarrow> string set" where
  "acceptedOwners p =
     (if TXTOwnerMigrate p then {TXTOwner p, TXTOwnerOld p} else {TXTOwner p})"

definition ownedBy :: "Plan \<Rightarrow> heap \<Rightarrow> ptr \<Rightarrow> bool" where
  "ownedBy p h e =
     (case e of
        None \<Rightarrow> False
      | Some a \<Rightarrow>
          (case lookupOk (labelsOf h (recs h ! a)) OwnerLabelKey of
             None \<Rightarrow> False
           | Some owner \<Rightarrow> owner \<in> acceptedOwners p))"

definition allOwned :: "Plan \<Rightarrow> heap \<Rightarrow> ptr slice \<Rightarrow> bool" where
  "allOwned p h s = list_all (ownedBy p h) (elems s)"

text \<open>The grouping key of a record, and the pairing invariant of the two update lists.\<close>

definition keyOf :: "Env \<Rightarrow> Endpoint \<Rightarrow> planKey" where
  "keyOf env e = \<lparr>dnsName = normalizeDNSName env (DNSName e),
                  setIdentifier = SetIdentifier e,
                  recordType = RecordType e\<rparr>"

definition keyOfPtr :: "Env \<Rightarrow> heap \<Rightarrow> ptr \<Rightarrow> planKey option" where
  "keyOfPtr env h e = map_option (\<lambda>a. keyOf env (recs h ! a)) e"

definition paired :: "Env \<Rightarrow> heap \<Rightarrow> Changes \<Rightarrow> bool" where
  "paired env h c =
     (len (UpdateOld c) = len (UpdateNew c)
      \<and> list_all2 (\<lambda>old new. keyOfPtr env h old = keyOfPtr env h new)
           (elems (UpdateOld c)) (elems (UpdateNew c)))"

text \<open>
  What a grouping key has: the entries of a list that point to records of the key, its
  current record, which is the last of the filtered current records of the key and nil
  when there is none, and its candidates, the filtered desired records of the key.
\<close>

definition ofKey :: "Env \<Rightarrow> heap \<Rightarrow> planKey \<Rightarrow> ptr list \<Rightarrow> ptr list" where
  "ofKey env h k es = filter (\<lambda>e. keyOfPtr env h e = Some k) es"

definition currentOf :: "Env \<Rightarrow> heap \<Rightarrow> planKey \<Rightarrow> ptr list \<Rightarrow> ptr" where
  "currentOf env h k currents =
     (if ofKey env h k currents = [] then None else last (ofKey env h k currents))"

definition candidatesOf :: "Env \<Rightarrow> heap \<Rightarrow> planKey \<Rightarrow> ptr list \<Rightarrow> ptr list" where
  "candidatesOf env h k desireds = ofKey env h k desireds"

text \<open>The row of a key in a table, and the empty row when the table has none.\<close>

definition rowOr :: "planTable \<Rightarrow> planKey \<Rightarrow> planTableRow" where
  "rowOr t k = (case map_of t k of None \<Rightarrow> \<lparr>current = None, candidates = []\<rparr> | Some r \<Rightarrow> r)"

text \<open>
  The five outcomes of change detection for a key, read off the changes \<open>raw\<close> that the
  loop over the rows leaves, in the store \<open>h'\<close> that it leaves, when it started in the store
  \<open>h\<close>: a creation, a deletion or an update pair is an entry of the key in the list. The
  pair of a migration has a new half that the loop has allocated, the pair of an update
  of content has a new half that was there before. In a no-op no list has an entry of the
  key.
\<close>

datatype outcome = NoOp | DoCreate | DoDelete | DoUpdate | DoMigrate

definition allocatedIn :: "heap \<Rightarrow> ptr \<Rightarrow> bool" where
  "allocatedIn h e = (case e of None \<Rightarrow> False | Some a \<Rightarrow> a < length (recs h))"

definition applies :: "Env \<Rightarrow> heap \<Rightarrow> heap \<Rightarrow> Changes \<Rightarrow> planKey \<Rightarrow> outcome \<Rightarrow> bool" where
  "applies env h h' raw k oc =
     (case oc of
        NoOp \<Rightarrow>
          ofKey env h' k (elems (Create raw)) = [] \<and> ofKey env h' k (elems (Delete raw)) = []
          \<and> ofKey env h' k (elems (UpdateNew raw)) = []
          \<and> ofKey env h' k (elems (UpdateOld raw)) = []
      | DoCreate \<Rightarrow> ofKey env h' k (elems (Create raw)) \<noteq> []
      | DoDelete \<Rightarrow> ofKey env h' k (elems (Delete raw)) \<noteq> []
      | DoUpdate \<Rightarrow>
          filter (allocatedIn h) (ofKey env h' k (elems (UpdateNew raw))) \<noteq> []
      | DoMigrate \<Rightarrow>
          filter (\<lambda>e. \<not> allocatedIn h e) (ofKey env h' k (elems (UpdateNew raw))) \<noteq> [])"

definition outcomes :: "Env \<Rightarrow> heap \<Rightarrow> heap \<Rightarrow> Changes \<Rightarrow> planKey \<Rightarrow> outcome list" where
  "outcomes env h h' raw k =
     filter (applies env h h' raw k) [NoOp, DoCreate, DoDelete, DoUpdate, DoMigrate]"

text \<open>
  What the loop owes a key: one creation for a row without current record, one deletion
  for a row with a current record and no candidate, and at most one update pair for a row
  with both. \<open>due\<close> looks the row of the key up in the rows that the loop visits.
\<close>

definition createDue :: "planTableRow \<Rightarrow> nat" where
  "createDue r = (if current r = None then 1 else 0)"

definition deleteDue :: "planTableRow \<Rightarrow> nat" where
  "deleteDue r = (if current r \<noteq> None \<and> candidates r = [] then 1 else 0)"

definition updateDue :: "planTableRow \<Rightarrow> nat" where
  "updateDue r = (if current r \<noteq> None \<and> candidates r \<noteq> [] then 1 else 0)"

definition due :: "(planTableRow \<Rightarrow> nat) \<Rightarrow> planTable \<Rightarrow> planKey \<Rightarrow> nat" where
  "due f rows k = (case map_of rows k of None \<Rightarrow> 0 | Some r \<Rightarrow> f r)"

text \<open>
  When the entries of the four lists of changes are pointers to records of a store, and
  when a row is the row of a key in a store: its pointers are allocated and point to
  records of the key.
\<close>

definition entriesIn :: "heap \<Rightarrow> Changes \<Rightarrow> bool" where
  "entriesIn h c =
     list_all (allocatedIn h)
       (elems (Create c) @ elems (Delete c) @ elems (UpdateNew c) @ elems (UpdateOld c))"

definition rowFor :: "Env \<Rightarrow> heap \<Rightarrow> planKey \<Rightarrow> planTableRow \<Rightarrow> bool" where
  "rowFor env h k r =
     (list_all (\<lambda>e. allocatedIn h e \<and> keyOfPtr env h e = Some k) (candidates r)
      \<and> (current r = None \<or> (allocatedIn h (current r) \<and> keyOfPtr env h (current r) = Some k))
      \<and> (current r \<noteq> None \<or> candidates r \<noteq> []))"

text \<open>
  The arguments with which a complete run of the loop over \<open>rows\<close> calls
  \<^verbatim>\<open>ResolveCreate\<close> (line 168): the candidates of the rows without a current record.
\<close>

definition resolveCreateCalls :: "planTable \<Rightarrow> ptr list list" where
  "resolveCreateCalls rows =
     map (\<lambda>kr. candidates (snd kr)) (filter (\<lambda>kr. current (snd kr) = None) rows)"

text \<open>
  The provider-specific predicate in the words of the specification: the property of a
  given name on the desired record (the last one, should the name occur twice), how two
  values are compared, and when a property of the current record mismatches.
\<close>

definition propertyNamed ::
  "ProviderSpecificProperty list \<Rightarrow> string \<Rightarrow> ProviderSpecificProperty option" where
  "propertyNamed ds n = find (\<lambda>d. Name d = n) (rev ds)"

definition valuesDiffer :: "PropertyComparator option \<Rightarrow> string \<Rightarrow> string \<Rightarrow> string \<Rightarrow> bool" where
  "valuesDiffer cmp n cv dv = (case cmp of Some f \<Rightarrow> \<not> f n cv dv | None \<Rightarrow> cv \<noteq> dv)"

definition propertyMismatch ::
  "PropertyComparator option \<Rightarrow> ProviderSpecificProperty list \<Rightarrow> ProviderSpecificProperty \<Rightarrow> bool" where
  "propertyMismatch cmp ds c =
     (case propertyNamed ds (Name c) of
        Some d \<Rightarrow> valuesDiffer cmp (Name c) (Value c) (Value d)
      | None \<Rightarrow> valuesDiffer cmp (Name c) (Value c) '''')"

text \<open>
  What \<^verbatim>\<open>Calculate\<close> may do to a record of the caller. \<open>sameButLabels\<close>: every field but the
  reference to the label map is as before. \<open>keptUpToLabels\<close>: moreover a record that had a
  label map refers to the same map with the same entries, and a record that had the nil
  map has the nil map or an empty one.
\<close>

definition sameButLabels :: "Endpoint \<Rightarrow> Endpoint \<Rightarrow> bool" where
  "sameButLabels before after = (after\<lparr>Labels := Labels before\<rparr> = before)"

definition keptUpToLabels :: "heap \<Rightarrow> heap \<Rightarrow> nat \<Rightarrow> bool" where
  "keptUpToLabels h h' a =
     (sameButLabels (recs h ! a) (recs h' ! a)
      \<and> (case Labels (recs h ! a) of
            None \<Rightarrow>
              labelsOf h' (recs h' ! a) = None
              \<or> labelsOf h' (recs h' ! a) = Some Map.empty
          | Some m \<Rightarrow>
              Labels (recs h' ! a) = Some m \<and> labelMaps h' ! m = labelMaps h ! m))"

text \<open>
  When the pointers of a plan are sound in a store: the records of \<open>Current\<close> and \<open>Desired\<close>
  are allocated, and so are the label maps they refer to.
\<close>

definition allocated :: "Plan \<Rightarrow> heap \<Rightarrow> bool" where
  "allocated p h =
     list_all (\<lambda>e. case e of None \<Rightarrow> True | Some a \<Rightarrow>
                 a < length (recs h)
                 \<and> (case Labels (recs h ! a) of
                       None \<Rightarrow> True | Some m \<Rightarrow> m < length (labelMaps h)))
       (Current p @ Desired p)"

text \<open>
  When no current record of a plan is a desired record as well, or shares its label map
  with one.
\<close>

definition unshared :: "Plan \<Rightarrow> heap \<Rightarrow> bool" where
  "unshared p h =
     list_all (\<lambda>c. list_all (\<lambda>d.
         case c of None \<Rightarrow> True | Some a \<Rightarrow>
           (case d of None \<Rightarrow> True | Some b \<Rightarrow>
              a \<noteq> b
              \<and> (Labels (recs h ! a) = None \<or> Labels (recs h ! a) \<noteq> Labels (recs h ! b))))
       (Desired p)) (Current p)"

text \<open>
  When a store \<open>h'\<close> comes from a store \<open>h\<close> by allocations and by writes of labels: the
  records of \<open>h\<close> are still there, each with the fields it had, the label map apart.
\<close>

definition grows :: "heap \<Rightarrow> heap \<Rightarrow> bool" where
  "grows h h' =
     (length (recs h) \<le> length (recs h')
      \<and> list_all (\<lambda>a. sameButLabels (recs h ! a) (recs h' ! a)) [0..<length (recs h)])"

text \<open>When every record of \<open>Current\<close> is kept, up to its labels.\<close>

definition keeps :: "Plan \<Rightarrow> heap \<Rightarrow> heap \<Rightarrow> bool" where
  "keeps p h h' =
     list_all (\<lambda>c. case c of None \<Rightarrow> True | Some a \<Rightarrow> keptUpToLabels h h' a) (Current p)"

subsection \<open>Sample inputs\<close>

text \<open>
  A resolver that takes the first candidate, a TTL that is configured when positive,
  targets compared as sets, and the rows visited in the order of the table. The sample
  names are ASCII, so that what stands for the Unicode side of the string functions does
  not matter.
\<close>

definition firstCandidate :: "ptr list \<Rightarrow> ptr" where
  "firstCandidate cs = (case cs of [] \<Rightarrow> None | c # _ \<Rightarrow> c)"

definition sampleEnv :: Env where
  "sampleEnv =
     \<lparr>ResolveCreate = (\<lambda>h cs. firstCandidate cs),
      ResolveUpdate = (\<lambda>h c cs. firstCandidate cs),
      IsConfigured = (\<lambda>ttl. 0 <s ttl),
      Same = (\<lambda>t u. set t = set u),
      rangeOrder = (\<lambda>t. t),
      ToLowerUnicode = (\<lambda>s. s),
      TrimSpaceUnicode = (\<lambda>s. s)\<rparr>"

definition fooRecord :: "string list \<Rightarrow> nat option \<Rightarrow> Endpoint" where
  "fooRecord ts ls =
     \<lparr>DNSName = ''foo.'', Targets = ts, RecordType = ''A'', SetIdentifier = '''',
      RecordTTL = 0, Labels = ls, ProviderSpecific = []\<rparr>"

definition fooKey :: planKey where
  "fooKey = \<lparr>dnsName = ''foo.'', setIdentifier = '''', recordType = ''A''\<rparr>"

definition samplePlan :: "ptr list \<Rightarrow> ptr list \<Rightarrow> string \<Rightarrow> bool \<Rightarrow> string \<Rightarrow> Plan" where
  "samplePlan cur des owner migrate ownerOld =
     \<lparr>Current = cur, Desired = des, Missing = [], Policies = [], Changes = None,
      DomainFilter = None, PropertyComparator = None, ManagedRecords = [''A''],
      TXTOwner = owner, HasMig = False, TXTOwnerMigrate = migrate, TXTOwnerOld = ownerOld\<rparr>"

definition returnedPlan :: "ptr list \<Rightarrow> ptr list \<Rightarrow> Changes \<Rightarrow> bool \<Rightarrow> Plan" where
  "returnedPlan cur des c mig =
     \<lparr>Current = cur, Desired = des, Missing = [], Policies = [], Changes = Some c,
      DomainFilter = None, PropertyComparator = None,
      ManagedRecords = [RecordTypeA, RecordTypeAAAA, RecordTypeCNAME],
      TXTOwner = '''', HasMig = mig, TXTOwnerMigrate = False, TXTOwnerOld = ''''\<rparr>"

text \<open>
  Plan A: nothing current, one desired record without labels, owner \<^verbatim>\<open>me\<close>. The record is
  created.
\<close>

definition heapA :: heap where
  "heapA = \<lparr>recs = [fooRecord [''1.1.1.1''] None], labelMaps = []\<rparr>"

definition planA :: Plan where
  "planA = samplePlan [] [Some 0] ''me'' False ''''"

definition changesA :: Changes where
  "changesA = \<lparr>Create = Some [Some 0], UpdateOld = None, UpdateNew = None, Delete = None\<rparr>"

definition outcomeA :: Outcome where
  "outcomeA = \<lparr>returned = returnedPlan [] [Some 0] changesA False,
               receiver = planA\<lparr>DomainFilter := Some MatchAllDomainFilters\<rparr>,
               store = heapA\<rparr>"

text \<open>
  Plan B: a current record with the nil label map and a desired record with another
  target, owner \<^verbatim>\<open>me\<close>. The update is found, \<^verbatim>\<open>inheritOwner\<close> runs, and the ownership filter
  drops both halves of the pair.
\<close>

definition heapB :: heap where
  "heapB = \<lparr>recs = [fooRecord [''1.1.1.1''] None, fooRecord [''2.2.2.2''] None],
            labelMaps = []\<rparr>"

definition planB :: Plan where
  "planB = samplePlan [Some 0] [Some 1] ''me'' False ''''"

definition rawB :: Changes where
  "rawB = \<lparr>Create = None, UpdateOld = Some [Some 0], UpdateNew = Some [Some 1], Delete = None\<rparr>"

definition changesB :: Changes where
  "changesB = \<lparr>Create = None, UpdateOld = None, UpdateNew = None, Delete = None\<rparr>"

definition storeB :: heap where
  "storeB = \<lparr>recs = [fooRecord [''1.1.1.1''] (Some 1), fooRecord [''2.2.2.2''] (Some 0)],
             labelMaps = [[OwnerLabelKey \<mapsto> ''''], Map.empty]\<rparr>"

definition outcomeB :: Outcome where
  "outcomeB = \<lparr>returned = returnedPlan [Some 0] [Some 1] changesB False,
               receiver = planB\<lparr>DomainFilter := Some MatchAllDomainFilters\<rparr>,
               store = storeB\<rparr>"

text \<open>
  Plan C: migration to the owner \<^verbatim>\<open>new\<close> is switched on and the old owner is left empty;
  the current record has labels, none of them the owner label, and there is one desired
  record.
\<close>

definition heapC :: heap where
  "heapC = \<lparr>recs = [fooRecord [''1.1.1.1''] (Some 0), fooRecord [''1.1.1.1''] None],
            labelMaps = [Map.empty]\<rparr>"

definition planC :: Plan where
  "planC = samplePlan [Some 0] [Some 1] ''new'' True ''''"

definition changesC :: Changes where
  "changesC = \<lparr>Create = None, UpdateOld = None, UpdateNew = Some [Some 2], Delete = None\<rparr>"

definition storeC :: heap where
  "storeC = \<lparr>recs = recs heapC @ [fooRecord [''1.1.1.1''] (Some 1)],
             labelMaps = [Map.empty, [OwnerLabelKey \<mapsto> ''new'']]\<rparr>"

definition outcomeC :: Outcome where
  "outcomeC = \<lparr>returned = returnedPlan [Some 0] [Some 1] changesC True,
               receiver = planC\<lparr>DomainFilter := Some MatchAllDomainFilters\<rparr>,
               store = storeC\<rparr>"

text \<open>
  Plan D: migration from the owner \<^verbatim>\<open>old\<close> to the owner \<^verbatim>\<open>new\<close>; the current record is
  owned by \<^verbatim>\<open>old\<close> and there is one desired record.
\<close>

definition heapD :: heap where
  "heapD = \<lparr>recs = [fooRecord [''1.1.1.1''] (Some 0), fooRecord [''1.1.1.1''] None],
            labelMaps = [[OwnerLabelKey \<mapsto> ''old'']]\<rparr>"

definition planD :: Plan where
  "planD = samplePlan [Some 0] [Some 1] ''new'' True ''old''"

definition tableD :: planTable where
  "tableD = [(fooKey, \<lparr>current = Some 0, candidates = [Some 1]\<rparr>)]"

definition changesD :: Changes where
  "changesD = \<lparr>Create = None, UpdateOld = Some [Some 0], UpdateNew = Some [Some 2],
               Delete = None\<rparr>"

definition storeD :: heap where
  "storeD = \<lparr>recs = recs heapD @ [fooRecord [''1.1.1.1''] (Some 1)],
             labelMaps = [[OwnerLabelKey \<mapsto> ''old''], [OwnerLabelKey \<mapsto> ''new'']]\<rparr>"

definition outcomeD :: Outcome where
  "outcomeD = \<lparr>returned = returnedPlan [Some 0] [Some 1] changesD True,
               receiver = planD\<lparr>DomainFilter := Some MatchAllDomainFilters\<rparr>,
               store = storeD\<rparr>"

text \<open>A provider-specific property of the name \<^verbatim>\<open>proxied\<close>.\<close>

definition proxied :: "string \<Rightarrow> ProviderSpecificProperty" where
  "proxied v = \<lparr>Name = ''proxied'', Value = v\<rparr>"

definition plainRecord :: Endpoint where
  "plainRecord = fooRecord [] None"

definition proxiedRecord :: Endpoint where
  "proxiedRecord = plainRecord\<lparr>ProviderSpecific := [proxied ''true'']\<rparr>"

definition tolerantPlan :: Plan where
  "tolerantPlan = planA\<lparr>PropertyComparator := Some (\<lambda>name previous cur. True)\<rparr>"

text \<open>
  Plan E: no migration and the empty owner; the current record has labels, none of them
  the owner label, and the desired record has another target.
\<close>

definition heapE :: heap where
  "heapE = \<lparr>recs = [fooRecord [''1.1.1.1''] (Some 0), fooRecord [''2.2.2.2''] None],
            labelMaps = [Map.empty]\<rparr>"

definition planE :: Plan where
  "planE = samplePlan [Some 0] [Some 1] '''' False ''''"

definition changesE :: Changes where
  "changesE = \<lparr>Create = None, UpdateOld = None, UpdateNew = Some [Some 1], Delete = None\<rparr>"

definition storeE :: heap where
  "storeE = \<lparr>recs = [fooRecord [''1.1.1.1''] (Some 0), fooRecord [''2.2.2.2''] (Some 1)],
             labelMaps = [Map.empty, [OwnerLabelKey \<mapsto> '''']]\<rparr>"

definition outcomeE :: Outcome where
  "outcomeE = \<lparr>returned = returnedPlan [Some 0] [Some 1] changesE False,
               receiver = planE\<lparr>DomainFilter := Some MatchAllDomainFilters\<rparr>,
               store = storeE\<rparr>"

text \<open>
  Plan F: as plan B, but the current and the desired record, two records, refer to one
  label map, which is empty. The write of \<^verbatim>\<open>inheritOwner\<close> into the map of the desired
  record is a write into the map of the current record.
\<close>

definition heapF :: heap where
  "heapF = \<lparr>recs = [fooRecord [''1.1.1.1''] (Some 0), fooRecord [''2.2.2.2''] (Some 0)],
            labelMaps = [Map.empty]\<rparr>"

definition planF :: Plan where
  "planF = samplePlan [Some 0] [Some 1] ''me'' False ''''"

definition storeF :: heap where
  "storeF = \<lparr>recs = recs heapF, labelMaps = [[OwnerLabelKey \<mapsto> '''']]\<rparr>"

definition outcomeF :: Outcome where
  "outcomeF = \<lparr>returned = returnedPlan [Some 0] [Some 1] changesB False,
               receiver = planF\<lparr>DomainFilter := Some MatchAllDomainFilters\<rparr>,
               store = storeF\<rparr>"

text \<open>
  Plan G: the name is reported twice in \<open>Current\<close>, and the first of the two records, which
  has the nil label map, is the desired record as well. The second one, owned by \<^verbatim>\<open>me\<close>,
  is the current record of the row, and \<^verbatim>\<open>inheritOwner\<close> writes its owner to the first.
\<close>

definition heapG :: heap where
  "heapG = \<lparr>recs = [fooRecord [''2.2.2.2''] None, fooRecord [''1.1.1.1''] (Some 0)],
            labelMaps = [[OwnerLabelKey \<mapsto> ''me'']]\<rparr>"

definition planG :: Plan where
  "planG = samplePlan [Some 0, Some 1] [Some 0] ''me'' False ''''"

definition tableG :: planTable where
  "tableG = [(fooKey, \<lparr>current = Some 1, candidates = [Some 0]\<rparr>)]"

definition changesG :: Changes where
  "changesG = \<lparr>Create = None, UpdateOld = Some [Some 1], UpdateNew = Some [Some 0],
               Delete = None\<rparr>"

definition storeG :: heap where
  "storeG = \<lparr>recs = [fooRecord [''2.2.2.2''] (Some 1), fooRecord [''1.1.1.1''] (Some 0)],
             labelMaps = [[OwnerLabelKey \<mapsto> ''me''], [OwnerLabelKey \<mapsto> ''me'']]\<rparr>"

definition outcomeG :: Outcome where
  "outcomeG = \<lparr>returned = returnedPlan [Some 0, Some 1] [Some 0] changesG False,
               receiver = planG\<lparr>DomainFilter := Some MatchAllDomainFilters\<rparr>,
               store = storeG\<rparr>"

section \<open>Properties\<close>

subsection \<open>The normal form of a DNS name\<close>

lemma HasSuffix_dot: "HasSuffix s ''.'' = (s \<noteq> [] \<and> last s = CHR ''.'')"
proof (cases s rule: rev_cases)
  case Nil
  then show ?thesis by (simp add: HasSuffix_def)
next
  case (snoc ys y)
  then show ?thesis by (auto simp: HasSuffix_def)
qed

lemma trailingDots_snoc: "trailingDots (s @ ''.'') = Suc (trailingDots s)"
  by (simp add: trailingDots_def)

lemma trailingDots_zero: "s = [] \<or> last s \<noteq> CHR ''.'' \<Longrightarrow> trailingDots s = 0"
  by (cases s rule: rev_cases) (auto simp: trailingDots_def)

lemma trailingDots_pos: "s \<noteq> [] \<Longrightarrow> last s = CHR ''.'' \<Longrightarrow> 1 \<le> trailingDots s"
  by (cases s rule: rev_cases) (auto simp: trailingDots_def)

text \<open>The result, whatever the two string functions return.\<close>

lemma normalizeDNSName_dots:
  "(normalizeDNSName env s = TrimSpace env (ToLower env s)
      \<or> normalizeDNSName env s = TrimSpace env (ToLower env s) @ ''.'')
   \<and> trailingDots (normalizeDNSName env s) = max 1 (trailingDots (TrimSpace env (ToLower env s)))
   \<and> normalizeDNSName env s \<noteq> []"
proof -
  let ?t = "TrimSpace env (ToLower env s)"
  show ?thesis
  proof (cases "HasSuffix ?t ''.''")
    case True
    then have n: "normalizeDNSName env s = ?t" by (simp add: normalizeDNSName_def)
    from True have t: "?t \<noteq> []" "last ?t = CHR ''.''" by (simp_all add: HasSuffix_dot)
    have "1 \<le> trailingDots ?t" using t by (rule trailingDots_pos)
    then show ?thesis using n t by (simp add: max_def)
  next
    case False
    then have n: "normalizeDNSName env s = ?t @ ''.''" by (simp add: normalizeDNSName_def)
    from False have "trailingDots ?t = 0" by (intro trailingDots_zero) (simp add: HasSuffix_dot)
    then show ?thesis by (simp add: n trailingDots_snoc)
  qed
qed

text \<open>The ASCII side of the two string functions.\<close>

lemma toLowerChar_not_upper: "\<not> isUpper (toLowerChar c)"
  by (auto simp: toLowerChar_def isUpper_def)

lemma toLowerChar_ascii: "(of_char c :: nat) < 128 \<Longrightarrow> (of_char (toLowerChar c) :: nat) < 128"
  by (auto simp: toLowerChar_def isUpper_def)

lemma isASCII_ToLowerASCII: "isASCII s \<Longrightarrow> isASCII (ToLowerASCII s)"
  by (simp add: isASCII_def ToLowerASCII_def list_all_iff toLowerChar_ascii)

lemma set_TrimSpaceASCII: "set (TrimSpaceASCII s) \<subseteq> set s"
proof -
  have "set (dropWhile isSpace (rev (dropWhile isSpace s))) \<subseteq> set (rev (dropWhile isSpace s))"
    by (meson set_dropWhileD subsetI)
  moreover have "set (dropWhile isSpace s) \<subseteq> set s"
    by (meson set_dropWhileD subsetI)
  ultimately show ?thesis by (auto simp: TrimSpaceASCII_def)
qed

lemma last_dropWhile: "dropWhile P xs \<noteq> [] \<Longrightarrow> last (dropWhile P xs) = last xs"
proof -
  assume a: "dropWhile P xs \<noteq> []"
  have "last xs = last (takeWhile P xs @ dropWhile P xs)" by simp
  also have "\<dots> = last (dropWhile P xs)" using a by (rule last_appendR)
  finally show ?thesis by simp
qed

lemma TrimSpaceASCII_ends:
  assumes "TrimSpaceASCII s \<noteq> []"
  shows "\<not> isSpace (hd (TrimSpaceASCII s)) \<and> \<not> isSpace (last (TrimSpaceASCII s))"
proof -
  let ?y = "dropWhile isSpace s"
  let ?z = "dropWhile isSpace (rev ?y)"
  from assms have z: "?z \<noteq> []" by (simp add: TrimSpaceASCII_def)
  have y: "?y \<noteq> []"
  proof
    assume "?y = []"
    then have "?z = []" by (simp only: rev.simps(1) dropWhile.simps(1))
    with z show False by simp
  qed
  have "\<not> isSpace (hd ?z)" using z by (rule hd_dropWhile)
  then have l: "\<not> isSpace (last (TrimSpaceASCII s))" using z by (simp add: TrimSpaceASCII_def last_rev)
  have "last ?z = last (rev ?y)" using z by (rule last_dropWhile)
  also have "\<dots> = hd ?y" using y by (simp add: last_rev)
  finally have "hd (TrimSpaceASCII s) = hd ?y" using z by (simp add: TrimSpaceASCII_def hd_rev)
  moreover have "\<not> isSpace (hd ?y)" using y by (rule hd_dropWhile)
  ultimately show ?thesis using l by simp
qed

lemma dot_not_space: "\<not> isSpace CHR ''.''" by (simp add: isSpace_def)
lemma dot_not_upper: "\<not> isUpper CHR ''.''" by (simp add: isUpper_def)

lemma TrimSpace_ToLower_ascii:
  "isASCII s \<Longrightarrow> TrimSpace env (ToLower env s) = TrimSpaceASCII (ToLowerASCII s)"
  by (simp add: TrimSpace_def ToLower_def isASCII_ToLowerASCII)

text \<open>
  Claim C9, as amended. For every name, \<^verbatim>\<open>normalizeDNSName\<close> lower-cases the name, trims
  the surrounding white space, both as the standard library does, and the result ends with
  a dot: one dot is added when the trimmed name has none at its end, and the dots that are
  already there are all kept. So the result is the trimmed lower-cased name or that name
  with one dot added, and it has as many trailing dots as the trimmed name has, but at
  least one. For an ASCII name, the trimmed lower-cased name has the letters A to Z
  replaced by a to z and the ASCII white space removed at both ends, and the result has
  no upper-case letter and no white space at either end.
\<close>

theorem normalizeDNSName_trailing_dot:
  "(normalizeDNSName env s = TrimSpace env (ToLower env s)
      \<or> normalizeDNSName env s = TrimSpace env (ToLower env s) @ ''.'')
   \<and> trailingDots (normalizeDNSName env s) = max 1 (trailingDots (TrimSpace env (ToLower env s)))
   \<and> normalizeDNSName env s \<noteq> []
   \<and> (isASCII s \<longrightarrow>
        TrimSpace env (ToLower env s) = TrimSpaceASCII (ToLowerASCII s)
        \<and> (\<forall>c \<in> set (normalizeDNSName env s). \<not> isUpper c)
        \<and> \<not> isSpace (hd (normalizeDNSName env s))
        \<and> \<not> isSpace (last (normalizeDNSName env s)))"
proof -
  let ?t = "TrimSpaceASCII (ToLowerASCII s)"
  note d = normalizeDNSName_dots [of env s]
  have "(\<forall>c \<in> set (normalizeDNSName env s). \<not> isUpper c)
        \<and> \<not> isSpace (hd (normalizeDNSName env s))
        \<and> \<not> isSpace (last (normalizeDNSName env s))" if a: "isASCII s"
  proof -
    have t: "TrimSpace env (ToLower env s) = ?t" using a by (rule TrimSpace_ToLower_ascii)
    have up: "\<forall>c \<in> set ?t. \<not> isUpper c"
      using set_TrimSpaceASCII [of "ToLowerASCII s"]
      by (auto simp: ToLowerASCII_def toLowerChar_not_upper)
    from d have "normalizeDNSName env s = ?t \<or> normalizeDNSName env s = ?t @ ''.''"
      by (simp add: t)
    then show ?thesis
    proof
      assume n: "normalizeDNSName env s = ?t"
      with d have "?t \<noteq> []" by simp
      from TrimSpaceASCII_ends [OF this] up show ?thesis by (simp add: n)
    next
      assume n: "normalizeDNSName env s = ?t @ ''.''"
      have "\<not> isSpace (hd (?t @ ''.''))"
        using TrimSpaceASCII_ends [of "ToLowerASCII s"]
        by (cases "?t = []") (simp_all add: dot_not_space)
      with up show ?thesis by (simp add: n dot_not_space dot_not_upper)
    qed
  qed
  with d TrimSpace_ToLower_ascii [of s env] show ?thesis by blast
qed

text \<open>The names \<^verbatim>\<open>a..\<close>, \<^verbatim>\<open>foo.\<close> and \<^verbatim>\<open> Foo.COM \<close> are ASCII.\<close>

lemma normalize_ascii:
  "isASCII s \<Longrightarrow> normalizeDNSName env s =
     (if HasSuffix (TrimSpaceASCII (ToLowerASCII s)) ''.'' then TrimSpaceASCII (ToLowerASCII s)
      else TrimSpaceASCII (ToLowerASCII s) @ ''.'')"
  by (simp add: normalizeDNSName_def TrimSpace_ToLower_ascii)

lemma two_dots_ascii:
  "isASCII ''a..'' \<and> HasSuffix (TrimSpaceASCII (ToLowerASCII ''a..'')) ''.''
   \<and> TrimSpaceASCII (ToLowerASCII ''a..'') = ''a..''"
  by code_simp

lemma foo_ascii:
  "isASCII ''foo.'' \<and> HasSuffix (TrimSpaceASCII (ToLowerASCII ''foo.'')) ''.''
   \<and> TrimSpaceASCII (ToLowerASCII ''foo.'') = ''foo.''"
  by code_simp

lemma Foo_ascii:
  "isASCII '' Foo.COM '' \<and> \<not> HasSuffix (TrimSpaceASCII (ToLowerASCII '' Foo.COM '')) ''.''
   \<and> TrimSpaceASCII (ToLowerASCII '' Foo.COM '') = ''foo.com''"
  by code_simp

lemma normalize_two_dots: "normalizeDNSName env ''a..'' = ''a..''"
  using two_dots_ascii by (simp add: normalize_ascii HasSuffix_dot)

lemma normalize_foo: "normalizeDNSName env ''foo.'' = ''foo.''"
  using foo_ascii by (simp add: normalize_ascii HasSuffix_dot)

lemma normalize_Foo: "normalizeDNSName env '' Foo.COM '' = ''foo.com.''"
  using Foo_ascii by (simp add: normalize_ascii HasSuffix_dot)

text \<open>
  Claim C9 as stated, that the result ends with exactly one trailing dot, fails: the
  normalized form of \<^verbatim>\<open>a..\<close> ends with two.
\<close>

theorem normalizeDNSName_two_trailing_dots:
  "trailingDots (normalizeDNSName sampleEnv ''a..'') = 2"
  by (simp add: normalize_two_dots trailingDots_def)

text \<open>The amended claim C9 at the name \<^verbatim>\<open> Foo.COM \<close>, with a blank on either side.\<close>

theorem normalizeDNSName_trailing_dot_witness:
  "isASCII '' Foo.COM ''
   \<and> normalizeDNSName sampleEnv '' Foo.COM '' = ''foo.com'' @ ''.''
   \<and> TrimSpace sampleEnv (ToLower sampleEnv '' Foo.COM '') = ''foo.com''
   \<and> trailingDots (normalizeDNSName sampleEnv '' Foo.COM '') = 1
   \<and> list_all (\<lambda>c. \<not> isUpper c) (normalizeDNSName sampleEnv '' Foo.COM '')"
  using normalizeDNSName_trailing_dot [of sampleEnv "'' Foo.COM ''"] Foo_ascii
  by (simp add: normalize_Foo trailingDots_def list_all_iff)

subsection \<open>The TTL predicate\<close>

text \<open>
  Claim C6. For every pair of records \<open>update\<close> and \<open>cur\<close>, the TTL predicate fires if and
  only if the TTL of \<open>update\<close> is configured and differs from the TTL of \<open>cur\<close>; in
  particular a TTL of \<open>update\<close> that is not configured never forces an update, whatever
  the TTL of \<open>cur\<close> is. This holds for every reading of \<^verbatim>\<open>IsConfigured\<close>.
\<close>

theorem shouldUpdateTTL_iff:
  "shouldUpdateTTL env update cur
     = (IsConfigured env (RecordTTL update) \<and> RecordTTL update \<noteq> RecordTTL cur)
   \<and> (\<not> IsConfigured env (RecordTTL update) \<longrightarrow> \<not> shouldUpdateTTL env update cur)"
  by (simp add: shouldUpdateTTL_def)

text \<open>
  Claim C6 at a record without a configured TTL and a record with the TTL 300, in both
  directions.
\<close>

theorem shouldUpdateTTL_iff_witness:
  "\<not> IsConfigured sampleEnv (RecordTTL (fooRecord [] None))
   \<and> \<not> shouldUpdateTTL sampleEnv (fooRecord [] None) (fooRecord [] None\<lparr>RecordTTL := 300\<rparr>)
   \<and> shouldUpdateTTL sampleEnv (fooRecord [] None\<lparr>RecordTTL := 300\<rparr>) (fooRecord [] None)"
  using shouldUpdateTTL_iff [of sampleEnv "fooRecord [] None" "fooRecord [] None\<lparr>RecordTTL := 300\<rparr>"]
    shouldUpdateTTL_iff [of sampleEnv "fooRecord [] None\<lparr>RecordTTL := 300\<rparr>" "fooRecord [] None"]
  by (simp add: sampleEnv_def fooRecord_def word_sless_alt)

subsection \<open>The provider-specific predicate\<close>

lemma find_snoc:
  "find P (xs @ [x]) = (case find P xs of Some y \<Rightarrow> Some y | None \<Rightarrow> if P x then Some x else None)"
  by (induction xs) auto

lemma desiredPropertiesLoop_lookup:
  "desiredPropertiesLoop ds m n = (case propertyNamed ds n of Some d \<Rightarrow> Some d | None \<Rightarrow> m n)"
proof (induction ds arbitrary: m)
  case Nil
  then show ?case by (simp add: propertyNamed_def)
next
  case (Cons d ds)
  show ?case
    by (simp add: Cons.IH propertyNamed_def find_snoc split: option.splits)
qed

lemma desiredProperties_propertyNamed:
  "desiredPropertiesLoop ds Map.empty n = propertyNamed ds n"
  by (simp add: desiredPropertiesLoop_lookup split: option.splits)

lemma currentPropertiesLoop_exists:
  "currentPropertiesLoop cmp dp cs
     = (\<exists>c \<in> set cs.
          case dp (Name c) of
            Some d \<Rightarrow> valuesDiffer cmp (Name c) (Value c) (Value d)
          | None \<Rightarrow> valuesDiffer cmp (Name c) (Value c) [])"
proof (induction cs)
  case Nil
  then show ?case by simp
next
  case (Cons c cs)
  then show ?case
    by (cases cmp; cases "dp (Name c)") (auto simp: valuesDiffer_def)
qed

lemma currentPropertiesLoop_iff:
  "currentPropertiesLoop cmp (desiredPropertiesLoop ds Map.empty) cs
     = (\<exists>c \<in> set cs. propertyMismatch cmp ds c)"
  by (simp only: currentPropertiesLoop_exists desiredProperties_propertyNamed
        propertyMismatch_def)

lemma propertyNamed_filter:
  "P n \<Longrightarrow> propertyNamed (filter (\<lambda>d. P (Name d)) ds) n = propertyNamed ds n"
proof (induction ds rule: rev_induct)
  case Nil
  then show ?case by simp
next
  case (snoc d ds)
  then show ?case by (auto simp: propertyNamed_def)
qed

text \<open>
  Claim C7. For every pair of records \<open>update\<close> and \<open>cur\<close>, the provider-specific predicate
  fires if and only if some property of \<open>cur\<close> mismatches: its value is compared with the
  value of the property of the same name on \<open>update\<close>, or with the empty string when
  \<open>update\<close> has no such property, through the comparator when the plan has one and by
  inequality otherwise. The properties that only \<open>update\<close> has never count: the predicate
  gives the same answer when they are removed from \<open>update\<close>.
\<close>

theorem shouldUpdateProviderSpecific_iff:
  "shouldUpdateProviderSpecific p update cur
     = (\<exists>c \<in> set (ProviderSpecific cur).
          propertyMismatch (PropertyComparator p) (ProviderSpecific update) c)
   \<and> shouldUpdateProviderSpecific p
       (update\<lparr>ProviderSpecific :=
          filter (\<lambda>d. Name d \<in> Name ` set (ProviderSpecific cur)) (ProviderSpecific update)\<rparr>) cur
     = shouldUpdateProviderSpecific p update cur"
proof -
  have "propertyMismatch cmp (filter (\<lambda>d. Name d \<in> Name ` set cs) ds) c = propertyMismatch cmp ds c"
    if "c \<in> set cs" for cmp cs ds c
    using that propertyNamed_filter [of "\<lambda>n. n \<in> Name ` set cs" "Name c" ds]
    by (simp add: propertyMismatch_def)
  then show ?thesis
    by (simp add: shouldUpdateProviderSpecific_def currentPropertiesLoop_iff)
qed

text \<open>
  Claim C7 at a record with the property \<^verbatim>\<open>proxied\<close> and a record without properties, in
  both directions, and with a comparator that calls all values equal.
\<close>

theorem shouldUpdateProviderSpecific_iff_witness:
  "shouldUpdateProviderSpecific planA plainRecord proxiedRecord
   \<and> \<not> shouldUpdateProviderSpecific planA proxiedRecord plainRecord
   \<and> \<not> shouldUpdateProviderSpecific tolerantPlan plainRecord proxiedRecord"
  using shouldUpdateProviderSpecific_iff [of planA plainRecord proxiedRecord]
    shouldUpdateProviderSpecific_iff [of planA proxiedRecord plainRecord]
    shouldUpdateProviderSpecific_iff [of tolerantPlan plainRecord proxiedRecord]
  by (simp add: plainRecord_def proxiedRecord_def tolerantPlan_def fooRecord_def proxied_def
        planA_def samplePlan_def propertyMismatch_def propertyNamed_def valuesDiffer_def)

subsection \<open>Calculate on the sample plans\<close>

text \<open>The stages of \<^verbatim>\<open>Calculate\<close>, composed, and taken apart when it returns.\<close>

lemmas sample_defs = samplePlan_def returnedPlan_def fooRecord_def fooKey_def sampleEnv_def
  firstCandidate_def defaultDomainFilter_def
lemmas table_defs = buildTable_def Match_def MatchAllDomainFilters_def
  newPlanTable_def addCurrent_def addCandidate_def newPlanKey_def Let_def normalize_foo
lemmas step_defs = detectChanges_def rowStep_def updateRow_def migrateRow_def DeepCopy_def
  shouldUpdateTTL_def targetChanged_def shouldUpdateProviderSpecific_def inheritOwner_def
  emptyChanges_def append1_def appendAll_def elems_def lookup_def lookupOk_def Let_def
  makeLabels_def setLabel_def labelsOf_def
lemmas final_defs = addMissing_def finalChanges_def filterOwnedRecords_def elems_def
  lookupOk_def labelsOf_def Let_def

lemma rangeOrder_sample: "rangeOrder sampleEnv t = t"
  by (simp add: sampleEnv_def)

lemma Calculate_stages:
  assumes "buildTable env (defaultDomainFilter p) h = Inr t"
    and "detectChanges env (defaultDomainFilter p) h t = Inr (h', raw, mig)"
    and "addMissing (defaultDomainFilter p) h'
           (applyPolicies (Policies (defaultDomainFilter p)) raw) = Inr changes"
    and "finalChanges (defaultDomainFilter p) h' changes = Inr final"
  shows "Calculate env p h =
     Inr \<lparr>returned = returnedPlan (Current p) (Desired p) final mig,
          receiver = defaultDomainFilter p, store = h'\<rparr>"
  using assms by (simp add: Calculate_def Let_def returnedPlan_def defaultDomainFilter_def)

lemma Calculate_returns:
  assumes "Calculate env p h = Inr out"
  shows "\<exists>t h' raw mig changes final.
     buildTable env (defaultDomainFilter p) h = Inr t
     \<and> detectChanges env (defaultDomainFilter p) h t = Inr (h', raw, mig)
     \<and> addMissing (defaultDomainFilter p) h'
           (applyPolicies (Policies (defaultDomainFilter p)) raw) = Inr changes
     \<and> finalChanges (defaultDomainFilter p) h' changes = Inr final
     \<and> out = \<lparr>returned = returnedPlan (Current p) (Desired p) final mig,
          receiver = defaultDomainFilter p, store = h'\<rparr>"
  using assms
  by (auto simp: Calculate_def Let_def returnedPlan_def defaultDomainFilter_def
           split: sum.splits prod.splits)

text \<open>Plan A: the record is created.\<close>

lemma table_A:
  "buildTable sampleEnv (defaultDomainFilter planA) heapA = Inr [(fooKey, \<lparr>current = None, candidates = [Some 0]\<rparr>)]"
  by (simp add: planA_def heapA_def sample_defs table_defs)

lemma detect_A:
  "detectChanges sampleEnv (defaultDomainFilter planA) heapA
     [(fooKey, \<lparr>current = None, candidates = [Some 0]\<rparr>)] = Inr (heapA, changesA, False)"
  by (simp add: planA_def heapA_def changesA_def sample_defs step_defs)

lemma missing_A:
  "addMissing (defaultDomainFilter planA) heapA
     (applyPolicies (Policies (defaultDomainFilter planA)) changesA) = Inr changesA"
  by (simp add: planA_def sample_defs addMissing_def)

lemma final_A: "finalChanges (defaultDomainFilter planA) heapA changesA = Inr changesA"
  by (simp add: planA_def heapA_def changesA_def sample_defs final_defs)

lemma Calculate_A: "Calculate sampleEnv planA heapA = Inr outcomeA"
  using Calculate_stages [OF table_A detect_A missing_A final_A]
  by (simp add: outcomeA_def planA_def sample_defs)

text \<open>Plan B: the update is found and then dropped by the ownership filter; the store has changed.\<close>

lemma table_B:
  "buildTable sampleEnv (defaultDomainFilter planB) heapB = Inr tableD"
  by (simp add: planB_def heapB_def tableD_def sample_defs table_defs)

lemma detect_B:
  "detectChanges sampleEnv (defaultDomainFilter planB) heapB tableD
     = Inr (storeB, rawB, False)"
  by (simp add: planB_def heapB_def storeB_def rawB_def tableD_def sample_defs step_defs)

lemma missing_B:
  "addMissing (defaultDomainFilter planB) storeB
     (applyPolicies (Policies (defaultDomainFilter planB)) c) = Inr c"
  by (simp add: planB_def sample_defs addMissing_def)

lemma final_B: "finalChanges (defaultDomainFilter planB) storeB 
   rawB = Inr changesB"
  by (simp add: planB_def storeB_def changesB_def rawB_def sample_defs final_defs)

lemma Calculate_B: "Calculate sampleEnv planB heapB = Inr outcomeB"
  using Calculate_stages [OF table_B detect_B missing_B final_B]
  by (simp add: outcomeB_def planB_def sample_defs)

text \<open>Plan C: only the new half of the migration pair is left.\<close>

lemma table_C:
  "buildTable sampleEnv (defaultDomainFilter planC) heapC = Inr tableD"
  by (simp add: planC_def heapC_def tableD_def sample_defs table_defs)

lemma detect_C:
  "detectChanges sampleEnv (defaultDomainFilter planC) heapC tableD
     = Inr (storeC, changesD, True)"
  by (simp add: planC_def heapC_def storeC_def changesD_def tableD_def sample_defs step_defs)

lemma missing_C:
  "addMissing (defaultDomainFilter planC) storeC
     (applyPolicies (Policies (defaultDomainFilter planC)) c) = Inr c"
  by (simp add: planC_def sample_defs addMissing_def)

lemma final_C: "finalChanges (defaultDomainFilter planC) storeC changesD = Inr changesC"
  by (simp add: planC_def storeC_def heapC_def changesC_def changesD_def sample_defs final_defs)

lemma Calculate_C: "Calculate sampleEnv planC heapC = Inr outcomeC"
  using Calculate_stages [OF table_C detect_C missing_C final_C]
  by (simp add: outcomeC_def planC_def sample_defs)

text \<open>Plan D: the migration pair.\<close>

lemma table_D:
  "buildTable sampleEnv (defaultDomainFilter planD) heapD = Inr tableD"
  by (simp add: planD_def heapD_def tableD_def sample_defs table_defs)

lemma detect_D:
  "detectChanges sampleEnv (defaultDomainFilter planD) heapD tableD
     = Inr (storeD, changesD, True)"
  by (simp add: planD_def heapD_def storeD_def changesD_def tableD_def sample_defs step_defs)

lemma missing_D:
  "addMissing (defaultDomainFilter planD) storeD
     (applyPolicies (Policies (defaultDomainFilter planD)) c) = Inr c"
  by (simp add: planD_def sample_defs addMissing_def)

lemma final_D: "finalChanges (defaultDomainFilter planD) storeD changesD = Inr changesD"
  by (simp add: planD_def storeD_def heapD_def changesD_def sample_defs final_defs)

lemma Calculate_D: "Calculate sampleEnv planD heapD = Inr outcomeD"
  using Calculate_stages [OF table_D detect_D missing_D final_D]
  by (simp add: outcomeD_def planD_def sample_defs)

subsection \<open>The ownership filter\<close>

lemma Contains_set: "Contains s v = (v \<in> set s)"
  by (induction s) auto

lemma ownedLoop_owned:
  "ownedLoop h ownerIDs eps = Inr filtered \<Longrightarrow>
   \<forall>e \<in> set filtered. \<exists>a v. e = Some a \<and> lookupOk (labelsOf h (recs h ! a)) OwnerLabelKey = Some v
      \<and> v \<in> set ownerIDs"
proof (induction eps arbitrary: filtered)
  case Nil
  then show ?case by simp
next
  case (Cons ep eps)
  then show ?case
    by (auto simp: Contains_set split: option.splits sum.splits if_splits)
qed

lemma filterOwnedRecords_owned:
  assumes "filterOwnedRecords h (TXTOwner p) (TXTOwnerOld p) (TXTOwnerMigrate p) eps = Inr s"
  shows "allOwned p h s \<and> s \<noteq> Some []"
proof -
  let ?ids = "if TXTOwnerMigrate p then [TXTOwner p] @ [TXTOwnerOld p] else [TXTOwner p]"
  from assms obtain filtered where
    l: "ownedLoop h ?ids (elems eps) = Inr filtered"
    and s: "s = (if length filtered = 0 then None else Some filtered)"
    by (auto simp: filterOwnedRecords_def Let_def split: sum.splits if_splits)
  have "set ?ids = acceptedOwners p" by (auto simp: acceptedOwners_def)
  with ownedLoop_owned [OF l] have "\<forall>e \<in> set filtered. ownedBy p h e"
    by (fastforce simp: ownedBy_def)
  then show ?thesis using s by (auto simp: allOwned_def elems_def list_all_iff)
qed

text \<open>
  Claim C1, as amended. For every plan, in the plan that \<^verbatim>\<open>Calculate\<close> returns the ownership
  filter is applied to three of the four lists of changes, \<open>UpdateNew\<close>, \<open>UpdateOld\<close> and
  \<open>Delete\<close>: each of their entries points to a record whose owner label is present and
  is \<^verbatim>\<open>TXTOwner\<close>, or \<^verbatim>\<open>TXTOwnerOld\<close> when \<^verbatim>\<open>TXTOwnerMigrate\<close> is set, and each of the
  three is nil, not an empty list, when no record is left. \<open>Create\<close> is not filtered: it is
  the list of creations as the policies and the missing records leave it.
\<close>

theorem Calculate_owned_updates_deletes:
  assumes "Calculate env p h = Inr out"
  shows "\<exists>c t h' raw mig changes.
     Changes (returned out) = Some c
     \<and> allOwned p (store out) (UpdateNew c) \<and> UpdateNew c \<noteq> Some []
     \<and> allOwned p (store out) (UpdateOld c) \<and> UpdateOld c \<noteq> Some []
     \<and> allOwned p (store out) (Delete c) \<and> Delete c \<noteq> Some []
     \<and> buildTable env (defaultDomainFilter p) h = Inr t
     \<and> detectChanges env (defaultDomainFilter p) h t = Inr (h', raw, mig)
     \<and> addMissing (defaultDomainFilter p) h' (applyPolicies (Policies p) raw) = Inr changes
     \<and> Create c = Create changes"
proof -
  let ?p = "defaultDomainFilter p"
  from Calculate_returns [OF assms] obtain t h' raw mig changes final where
    t: "buildTable env ?p h = Inr t"
    and d: "detectChanges env ?p h t = Inr (h', raw, mig)"
    and m: "addMissing ?p h' (applyPolicies (Policies ?p) raw) = Inr changes"
    and f: "finalChanges ?p h' changes = Inr final"
    and out: "out = \<lparr>returned = returnedPlan (Current p) (Desired p) final mig,
          receiver = ?p, store = h'\<rparr>"
    by blast
  have own: "TXTOwner ?p = TXTOwner p" "TXTOwnerOld ?p = TXTOwnerOld p"
    "TXTOwnerMigrate ?p = TXTOwnerMigrate p" "Policies ?p = Policies p"
    by (simp_all add: defaultDomainFilter_def)
  from f obtain un uo dl where
    un: "filterOwnedRecords h' (TXTOwner p) (TXTOwnerOld p) (TXTOwnerMigrate p) (UpdateNew changes) = Inr un"
    and uo: "filterOwnedRecords h' (TXTOwner p) (TXTOwnerOld p) (TXTOwnerMigrate p) (UpdateOld changes) = Inr uo"
    and dl: "filterOwnedRecords h' (TXTOwner p) (TXTOwnerOld p) (TXTOwnerMigrate p) (Delete changes) = Inr dl"
    and final: "final = \<lparr>Create = Create changes, UpdateOld = uo, UpdateNew = un, Delete = dl\<rparr>"
    by (auto simp: finalChanges_def own split: sum.splits)
  have c: "Changes (returned out) = Some final" "store out = h'"
    by (simp_all add: out returnedPlan_def)
  show ?thesis
    using filterOwnedRecords_owned [OF un] filterOwnedRecords_owned [OF uo]
      filterOwnedRecords_owned [OF dl] c d m t
    by (simp add: final own)
qed

text \<open>
  Claim C1 as stated, for all four lists, fails on \<open>Create\<close>: plan A, with the owner
  \<^verbatim>\<open>me\<close>, returns the creation of a record that has no labels at all.
\<close>

theorem Calculate_creates_unowned:
  "Calculate sampleEnv planA heapA = Inr outcomeA
   \<and> Changes (returned outcomeA) = Some changesA
   \<and> \<not> allOwned planA (store outcomeA) (Create changesA)"
  by (simp add: Calculate_A)
     (simp add: outcomeA_def changesA_def returnedPlan_def allOwned_def ownedBy_def elems_def
        heapA_def fooRecord_def lookupOk_def labelsOf_def)

text \<open>
  The amended claim C1 on plan D, whose update pair passes the filter, and on plan B, whose
  update pair does not.
\<close>

theorem Calculate_owned_updates_deletes_witness:
  "Calculate sampleEnv planD heapD = Inr outcomeD
   \<and> Changes (returned outcomeD) = Some changesD
   \<and> allOwned planD (store outcomeD) (UpdateNew changesD)
   \<and> allOwned planD (store outcomeD) (UpdateOld changesD)
   \<and> Delete changesD = None
   \<and> Calculate sampleEnv planB heapB = Inr outcomeB
   \<and> Changes (returned outcomeB) = Some changesB
   \<and> UpdateNew changesB = None \<and> UpdateOld changesB = None"
  using Calculate_owned_updates_deletes [OF Calculate_D]
    Calculate_owned_updates_deletes [OF Calculate_B]
  by (simp add: Calculate_D Calculate_B)
     (simp add: outcomeD_def outcomeB_def returnedPlan_def changesD_def changesB_def)

subsection \<open>The receiver\<close>

lemma defaultDomainFilter_restore:
  "(defaultDomainFilter p)\<lparr>DomainFilter := DomainFilter p\<rparr> = p"
  by (simp add: defaultDomainFilter_def)

text \<open>
  Claim C2, as amended. For every plan \<open>p\<close>, \<^verbatim>\<open>Calculate\<close> changes no field of the receiver
  other than \<open>DomainFilter\<close>: putting the old filter back gives \<open>p\<close> again. It leaves the
  receiver as it is when \<open>p\<close> has a domain filter, and stores the filter that matches
  everything in the receiver when \<open>p\<close> has none. The result is another plan, with the
  \<open>Current\<close> and \<open>Desired\<close> of \<open>p\<close>.
\<close>

theorem Calculate_receiver:
  assumes "Calculate env p h = Inr out"
  shows "(receiver out)\<lparr>DomainFilter := DomainFilter p\<rparr> = p
     \<and> (DomainFilter p \<noteq> None \<longrightarrow> receiver out = p)
     \<and> (DomainFilter p = None \<longrightarrow> DomainFilter (receiver out) = Some MatchAllDomainFilters)
     \<and> Current (returned out) = Current p \<and> Desired (returned out) = Desired p"
proof -
  from Calculate_returns [OF assms] obtain final mig h' where
    "out = \<lparr>returned = returnedPlan (Current p) (Desired p) final mig,
          receiver = defaultDomainFilter p, store = h'\<rparr>"
    by blast
  then show ?thesis
    by (simp add: defaultDomainFilter_restore returnedPlan_def) (simp add: defaultDomainFilter_def)
qed

text \<open>
  Claim C2 as stated, that every field of the receiver is unchanged, fails on
  \<open>DomainFilter\<close>: plan A has none, and after the call the receiver has one.
\<close>

theorem Calculate_sets_domain_filter:
  "Calculate sampleEnv planA heapA = Inr outcomeA
   \<and> DomainFilter planA = None
   \<and> DomainFilter (receiver outcomeA) = Some MatchAllDomainFilters
   \<and> receiver outcomeA \<noteq> planA"
proof -
  have "DomainFilter planA = None"
    by (simp add: planA_def samplePlan_def)
  moreover have "DomainFilter (receiver outcomeA) = Some MatchAllDomainFilters"
    by (simp add: outcomeA_def)
  ultimately show ?thesis using Calculate_A by auto
qed

lemma Calculate_default:
  "Calculate env (defaultDomainFilter p) h = Calculate env p h"
  by (simp add: Calculate_def Let_def defaultDomainFilter_def)

text \<open>
  The amended claim C2 on plan D, which has no domain filter, and on the receiver that this
  call leaves, which has one and is not changed by a second call.
\<close>

theorem Calculate_receiver_witness:
  "Calculate sampleEnv planD heapD = Inr outcomeD
   \<and> DomainFilter planD = None
   \<and> (receiver outcomeD)\<lparr>DomainFilter := DomainFilter planD\<rparr> = planD
   \<and> DomainFilter (receiver outcomeD) = Some MatchAllDomainFilters
   \<and> Calculate sampleEnv (receiver outcomeD) heapD = Inr outcomeD"
proof -
  have r: "receiver outcomeD = defaultDomainFilter planD"
    by (simp add: outcomeD_def planD_def samplePlan_def defaultDomainFilter_def)
  have c: "Calculate sampleEnv (receiver outcomeD) heapD = Inr outcomeD"
    by (simp only: r Calculate_default Calculate_D)
  have d: "DomainFilter (receiver outcomeD) = Some MatchAllDomainFilters"
    "DomainFilter planD = None"
    by (simp_all add: outcomeD_def planD_def samplePlan_def)
  show ?thesis
    using Calculate_receiver [OF Calculate_D] Calculate_receiver [OF c] c d Calculate_D
    by simp
qed

subsection \<open>The grouping table\<close>

text \<open>The two insertions, written without the intermediate empty row.\<close>

lemma map_entry_new:
  "k \<notin> fst ` set t \<Longrightarrow> AList.map_entry k f (t @ [(k, v)]) = t @ [(k, f v)]"
  by (induction t) auto

lemma map_entry_rows:
  "(k', r') \<in> set (AList.map_entry k f t) \<Longrightarrow>
   (k', r') \<in> set t \<or> (\<exists>r. (k, r) \<in> set t \<and> k' = k \<and> r' = f r)"
  by (induction t) (auto split: if_splits)

lemma newPlanKey_key: "fst (newPlanKey env t e) = keyOf env e"
  by (simp add: newPlanKey_def keyOf_def Let_def)

lemma addRow_eq:
  "(case newPlanKey env t e of (key, t') \<Rightarrow> g (AList.map_entry key f t'))
   = g (if keyOf env e \<in> fst ` set t then AList.map_entry (keyOf env e) f t
        else t @ [(keyOf env e, f \<lparr>current = None, candidates = []\<rparr>)])"
  by (auto simp: newPlanKey_def keyOf_def Let_def map_entry_new map_of_eq_None_iff)

lemma addCurrent_eq:
  "addCurrent env h t (Some a) = Inr
     (if keyOf env (recs h ! a) \<in> fst ` set t
      then AList.map_entry (keyOf env (recs h ! a)) (\<lambda>row. row\<lparr>current := Some a\<rparr>) t
      else t @ [(keyOf env (recs h ! a), \<lparr>current = Some a, candidates = []\<rparr>)])"
  unfolding addCurrent_def by (simp only: option.case addRow_eq) simp

lemma addCandidate_eq:
  "addCandidate env h t (Some a) = Inr
     (if keyOf env (recs h ! a) \<in> fst ` set t
      then AList.map_entry (keyOf env (recs h ! a)) (\<lambda>row. row\<lparr>candidates := candidates row @ [Some a]\<rparr>) t
      else t @ [(keyOf env (recs h ! a), \<lparr>current = None, candidates = [Some a]\<rparr>)])"
  unfolding addCandidate_def by (simp only: option.case addRow_eq) simp

lemma addCurrent_None: "addCurrent env h t None = Inl NilPointerDereference"
  by (simp add: addCurrent_def)

lemma addCandidate_None: "addCandidate env h t None = Inl NilPointerDereference"
  by (simp add: addCandidate_def)

text \<open>A property of the rows that the two insertions keep.\<close>

lemma addCurrent_rows:
  assumes "addCurrent env h t e = Inr t'" and "\<forall>kr \<in> set t. P (snd kr)"
    and "\<And>r. P r \<or> r = \<lparr>current = None, candidates = []\<rparr> \<Longrightarrow> P (r\<lparr>current := e\<rparr>)"
  shows "\<forall>kr \<in> set t'. P (snd kr)"
proof (cases e)
  case None
  with assms(1) show ?thesis by (simp add: addCurrent_None)
next
  case (Some a)
  show ?thesis
  proof
    fix kr assume kr: "kr \<in> set t'"
    obtain k r where [simp]: "kr = (k, r)" by (cases kr)
    from assms(1) kr Some
    have "(k, r) \<in> set t \<or> (\<exists>r0. (P r0 \<or> r0 = \<lparr>current = None, candidates = []\<rparr>) \<and> r = r0\<lparr>current := e\<rparr>)"
      using assms(2) by (auto simp: addCurrent_eq split: if_splits dest!: map_entry_rows)
    then show "P (snd kr)" using assms(2,3) by auto
  qed
qed

lemma addCandidate_rows:
  assumes "addCandidate env h t e = Inr t'" and "\<forall>kr \<in> set t. P (snd kr)"
    and "\<And>r. P r \<or> r = \<lparr>current = None, candidates = []\<rparr> \<Longrightarrow> P (r\<lparr>candidates := candidates r @ [e]\<rparr>)"
  shows "\<forall>kr \<in> set t'. P (snd kr)"
proof (cases e)
  case None
  with assms(1) show ?thesis by (simp add: addCandidate_None)
next
  case (Some a)
  show ?thesis
  proof
    fix kr assume kr: "kr \<in> set t'"
    obtain k r where [simp]: "kr = (k, r)" by (cases kr)
    from assms(1) kr Some
    have "(k, r) \<in> set t \<or> (\<exists>r0. (P r0 \<or> r0 = \<lparr>current = None, candidates = []\<rparr>) \<and> r = r0\<lparr>candidates := candidates r0 @ [e]\<rparr>)"
      using assms(2) by (auto simp: addCandidate_eq split: if_splits dest!: map_entry_rows)
    then show "P (snd kr)" using assms(2,3) by auto
  qed
qed

lemma addCurrents_rows:
  assumes "addCurrents env h t es = Inr t'" and "\<forall>kr \<in> set t. P (snd kr)"
    and "\<And>r e. e \<in> set es \<Longrightarrow> P r \<or> r = \<lparr>current = None, candidates = []\<rparr> \<Longrightarrow> P (r\<lparr>current := e\<rparr>)"
  shows "\<forall>kr \<in> set t'. P (snd kr)"
  using assms
proof (induction es arbitrary: t)
  case Nil
  then show ?case by simp
next
  case (Cons e es)
  from Cons.prems(1) obtain t1 where
    t1: "addCurrent env h t e = Inr t1" and rest: "addCurrents env h t1 es = Inr t'"
    by (auto split: sum.splits)
  have "\<forall>kr \<in> set t1. P (snd kr)"
    using t1 Cons.prems(2) by (rule addCurrent_rows) (simp add: Cons.prems(3))
  with rest show ?case by (rule Cons.IH) (simp add: Cons.prems(3))
qed

lemma addCandidates_rows:
  assumes "addCandidates env h t es = Inr t'" and "\<forall>kr \<in> set t. P (snd kr)"
    and "\<And>r e. e \<in> set es \<Longrightarrow> P r \<or> r = \<lparr>current = None, candidates = []\<rparr> \<Longrightarrow> P (r\<lparr>candidates := candidates r @ [e]\<rparr>)"
  shows "\<forall>kr \<in> set t'. P (snd kr)"
  using assms
proof (induction es arbitrary: t)
  case Nil
  then show ?case by simp
next
  case (Cons e es)
  from Cons.prems(1) obtain t1 where
    t1: "addCandidate env h t e = Inr t1" and rest: "addCandidates env h t1 es = Inr t'"
    by (auto split: sum.splits)
  have "\<forall>kr \<in> set t1. P (snd kr)"
    using t1 Cons.prems(2) by (rule addCandidate_rows) (simp add: Cons.prems(3))
  with rest show ?case by (rule Cons.IH) (simp add: Cons.prems(3))
qed

lemma filterRecordsForPlan_subset:
  "filterRecordsForPlan h records df mr = Inr filtered \<Longrightarrow>
   set filtered \<subseteq> set records \<and> None \<notin> set filtered"
  by (induction records arbitrary: filtered) (auto split: option.splits sum.splits if_splits)

lemma buildTable_returns:
  assumes "buildTable env p h = Inr t"
  shows "\<exists>currents t1 desireds.
     filterRecordsForPlan h (Current p) (Match p) (ManagedRecords p) = Inr currents
     \<and> addCurrents env h [] currents = Inr t1
     \<and> filterRecordsForPlan h (Desired p) (Match p) (ManagedRecords p) = Inr desireds
     \<and> addCandidates env h t1 desireds = Inr t"
  using assms by (auto simp: buildTable_def newPlanTable_def split: sum.splits)

text \<open>What holds of the table that \<^verbatim>\<open>Calculate\<close> builds.\<close>

lemma buildTable_nonempty_rows:
  assumes "buildTable env p h = Inr t"
  shows "\<forall>kr \<in> set t. current (snd kr) \<noteq> None \<or> candidates (snd kr) \<noteq> []"
proof -
  from buildTable_returns [OF assms] obtain currents t1 desireds where
    c: "filterRecordsForPlan h (Current p) (Match p) (ManagedRecords p) = Inr currents"
    and t1: "addCurrents env h [] currents = Inr t1"
    and t: "addCandidates env h t1 desireds = Inr t"
    by blast
  have "\<forall>kr \<in> set t1. current (snd kr) \<noteq> None \<or> candidates (snd kr) \<noteq> []"
    using t1 filterRecordsForPlan_subset [OF c] by (intro addCurrents_rows [OF t1]) auto
  then show ?thesis by (intro addCandidates_rows [OF t]) auto
qed

lemma buildTable_pointers:
  assumes "buildTable env p h = Inr t"
  shows "\<forall>kr \<in> set t. (current (snd kr) = None \<or> current (snd kr) \<in> set (Current p))
            \<and> set (candidates (snd kr)) \<subseteq> set (Desired p)"
proof -
  from buildTable_returns [OF assms] obtain currents t1 desireds where
    c: "filterRecordsForPlan h (Current p) (Match p) (ManagedRecords p) = Inr currents"
    and t1: "addCurrents env h [] currents = Inr t1"
    and d: "filterRecordsForPlan h (Desired p) (Match p) (ManagedRecords p) = Inr desireds"
    and t: "addCandidates env h t1 desireds = Inr t"
    by blast
  have "\<forall>kr \<in> set t1. (current (snd kr) = None \<or> current (snd kr) \<in> set (Current p))
            \<and> set (candidates (snd kr)) \<subseteq> set (Desired p)"
    using filterRecordsForPlan_subset [OF c] by (intro addCurrents_rows [OF t1]) auto
  then show ?thesis
    using filterRecordsForPlan_subset [OF d] by (intro addCandidates_rows [OF t]) auto
qed

lemma addCurrent_keys:
  assumes "addCurrent env h t e = Inr t'" and "distinct (map fst t)"
  shows "distinct (map fst t') \<and> (\<exists>a. e = Some a \<and> fst ` set t' = insert (keyOf env (recs h ! a)) (fst ` set t))"
proof (cases e)
  case None
  with assms(1) show ?thesis by (simp add: addCurrent_None)
next
  case (Some a)
  show ?thesis
  proof (cases "keyOf env (recs h ! a) \<in> fst ` set t")
    case True
    with assms(1) Some have t': "t' = AList.map_entry (keyOf env (recs h ! a)) (\<lambda>row. row\<lparr>current := Some a\<rparr>) t"
      by (simp add: addCurrent_eq)
    have "distinct (map fst t')"
      unfolding t' using assms(2) by (rule AList.distinct_map_entry)
    moreover have "fst ` set t' = insert (keyOf env (recs h ! a)) (fst ` set t)"
      unfolding t' using True by (simp only: AList.dom_map_entry insert_absorb)
    ultimately show ?thesis using Some by blast
  next
    case False
    with assms Some show ?thesis
      by (auto simp: addCurrent_eq)
  qed
qed

lemma addCandidate_keys:
  assumes "addCandidate env h t e = Inr t'" and "distinct (map fst t)"
  shows "distinct (map fst t') \<and> (\<exists>a. e = Some a \<and> fst ` set t' = insert (keyOf env (recs h ! a)) (fst ` set t))"
proof (cases e)
  case None
  with assms(1) show ?thesis by (simp add: addCandidate_None)
next
  case (Some a)
  show ?thesis
  proof (cases "keyOf env (recs h ! a) \<in> fst ` set t")
    case True
    with assms(1) Some have t': "t' = AList.map_entry (keyOf env (recs h ! a)) (\<lambda>row. row\<lparr>candidates := candidates row @ [Some a]\<rparr>) t"
      by (simp add: addCandidate_eq)
    have "distinct (map fst t')"
      unfolding t' using assms(2) by (rule AList.distinct_map_entry)
    moreover have "fst ` set t' = insert (keyOf env (recs h ! a)) (fst ` set t)"
      unfolding t' using True by (simp only: AList.dom_map_entry insert_absorb)
    ultimately show ?thesis using Some by blast
  next
    case False
    with assms Some show ?thesis
      by (auto simp: addCandidate_eq)
  qed
qed

text \<open>The keys of a list of pointers to records.\<close>

lemma addCurrents_keys:
  assumes "addCurrents env h t es = Inr t'" and "distinct (map fst t)"
  shows "distinct (map fst t') \<and> fst ` set t' = fst ` set t \<union> {keyOf env (recs h ! a) | a. Some a \<in> set es}"
  using assms
proof (induction es arbitrary: t)
  case Nil
  then show ?case by simp
next
  case (Cons e es)
  from Cons.prems(1) obtain t1 where
    t1: "addCurrent env h t e = Inr t1" and rest: "addCurrents env h t1 es = Inr t'"
    by (auto split: sum.splits)
  from addCurrent_keys [OF t1 Cons.prems(2)] obtain a where
    a: "distinct (map fst t1)" "e = Some a" "fst ` set t1 = insert (keyOf env (recs h ! a)) (fst ` set t)"
    by blast
  from Cons.IH [OF rest a(1)] a(2,3) show ?case by auto
qed

lemma addCandidates_keys:
  assumes "addCandidates env h t es = Inr t'" and "distinct (map fst t)"
  shows "distinct (map fst t') \<and> fst ` set t' = fst ` set t \<union> {keyOf env (recs h ! a) | a. Some a \<in> set es}"
  using assms
proof (induction es arbitrary: t)
  case Nil
  then show ?case by simp
next
  case (Cons e es)
  from Cons.prems(1) obtain t1 where
    t1: "addCandidate env h t e = Inr t1" and rest: "addCandidates env h t1 es = Inr t'"
    by (auto split: sum.splits)
  from addCandidate_keys [OF t1 Cons.prems(2)] obtain a where
    a: "distinct (map fst t1)" "e = Some a" "fst ` set t1 = insert (keyOf env (recs h ! a)) (fst ` set t)"
    by blast
  from Cons.IH [OF rest a(1)] a(2,3) show ?case by auto
qed

lemma buildTable_keys:
  assumes "buildTable env p h = Inr t"
  shows "distinct (map fst t)
     \<and> (\<exists>currents desireds.
           filterRecordsForPlan h (Current p) (Match p) (ManagedRecords p) = Inr currents
           \<and> filterRecordsForPlan h (Desired p) (Match p) (ManagedRecords p) = Inr desireds
           \<and> fst ` set t = {keyOf env (recs h ! a) | a. Some a \<in> set currents \<or> Some a \<in> set desireds})"
proof -
  from buildTable_returns [OF assms] obtain currents t1 desireds where
    c: "filterRecordsForPlan h (Current p) (Match p) (ManagedRecords p) = Inr currents"
    and t1: "addCurrents env h [] currents = Inr t1"
    and d: "filterRecordsForPlan h (Desired p) (Match p) (ManagedRecords p) = Inr desireds"
    and t: "addCandidates env h t1 desireds = Inr t"
    by blast
  from addCurrents_keys [OF t1] have k1: "distinct (map fst t1)"
    "fst ` set t1 = {keyOf env (recs h ! a) | a. Some a \<in> set currents}" by simp_all
  from addCandidates_keys [OF t k1(1)] have "distinct (map fst t)"
    "fst ` set t = {keyOf env (recs h ! a) | a. Some a \<in> set currents \<or> Some a \<in> set desireds}"
    by (auto simp: k1(2))
  with c d show ?thesis by blast
qed

text \<open>
  The row of a key: its current record is the last of the filtered current records of the
  key, and its candidates are the filtered desired records of the key, in their order.
\<close>

lemma map_of_snoc_new: "k \<notin> fst ` set t \<Longrightarrow> map_of (t @ [(k, v)]) = (map_of t)(k \<mapsto> v)"
  by (induction t) auto

lemma rowOr_new:
  assumes "k \<notin> fst ` set t"
  shows "rowOr t k = \<lparr>current = None, candidates = []\<rparr>"
proof -
  from assms have "map_of t k = None" by (simp add: map_of_eq_None_iff)
  then show ?thesis by (simp add: rowOr_def)
qed

lemma map_of_entry_old:
  "k \<in> fst ` set t \<Longrightarrow> map_of (AList.map_entry k f t) = (map_of t)(k \<mapsto> f (rowOr t k))"
proof -
  assume "k \<in> fst ` set t"
  then obtain r where "map_of t k = Some r"
    by (metis map_of_eq_None_iff not_Some_eq)
  then show ?thesis by (simp add: AList.map_of_map_entry rowOr_def)
qed

lemma addCurrent_map_of:
  assumes "addCurrent env h t (Some a) = Inr t'"
  shows "map_of t' = (map_of t)(keyOf env (recs h ! a) \<mapsto>
      (rowOr t (keyOf env (recs h ! a)))\<lparr>current := Some a\<rparr>)"
proof (cases "keyOf env (recs h ! a) \<in> fst ` set t")
  case True
  with assms have "t' = AList.map_entry (keyOf env (recs h ! a)) (\<lambda>row. row\<lparr>current := Some a\<rparr>) t"
    by (simp add: addCurrent_eq)
  then show ?thesis by (simp only: map_of_entry_old [OF True])
next
  case False
  with assms have "t' = t @ [(keyOf env (recs h ! a), \<lparr>current = Some a, candidates = []\<rparr>)]"
    by (simp add: addCurrent_eq)
  then show ?thesis by (simp only: map_of_snoc_new [OF False] rowOr_new [OF False]) simp
qed

lemma addCandidate_map_of:
  assumes "addCandidate env h t (Some a) = Inr t'"
  shows "map_of t' = (map_of t)(keyOf env (recs h ! a) \<mapsto>
      (rowOr t (keyOf env (recs h ! a)))\<lparr>candidates := candidates (rowOr t (keyOf env (recs h ! a))) @ [Some a]\<rparr>)"
proof (cases "keyOf env (recs h ! a) \<in> fst ` set t")
  case True
  with assms have "t' = AList.map_entry (keyOf env (recs h ! a))
      (\<lambda>row. row\<lparr>candidates := candidates row @ [Some a]\<rparr>) t"
    by (simp add: addCandidate_eq)
  then show ?thesis by (simp only: map_of_entry_old [OF True])
next
  case False
  with assms have "t' = t @ [(keyOf env (recs h ! a), \<lparr>current = None, candidates = [Some a]\<rparr>)]"
    by (simp add: addCandidate_eq)
  then show ?thesis by (simp only: map_of_snoc_new [OF False] rowOr_new [OF False]) simp
qed

lemma ofKey_Cons:
  "ofKey env h k (Some a # es) =
     (if keyOf env (recs h ! a) = k then Some a # ofKey env h k es else ofKey env h k es)"
  by (simp add: ofKey_def keyOfPtr_def)

lemma addCurrents_map_of:
  "addCurrents env h t es = Inr t' \<Longrightarrow>
   map_of t' k = (if ofKey env h k es = [] then map_of t k
                  else Some ((rowOr t k)\<lparr>current := last (ofKey env h k es)\<rparr>))"
proof (induction es arbitrary: t)
  case Nil
  then show ?case by (simp add: ofKey_def)
next
  case (Cons e es)
  from Cons.prems obtain t1 where
    t1: "addCurrent env h t e = Inr t1" and rest: "addCurrents env h t1 es = Inr t'"
    by (auto split: sum.splits)
  from t1 obtain a where e: "e = Some a" by (cases e) (auto simp: addCurrent_None)
  note m = addCurrent_map_of [OF t1 [unfolded e]]
  show ?case
  proof (cases "keyOf env (recs h ! a) = k")
    case True
    then have "map_of t1 k = Some ((rowOr t k)\<lparr>current := Some a\<rparr>)" by (simp add: m)
    then show ?thesis using Cons.IH [OF rest] True
      by (simp add: e ofKey_Cons rowOr_def)
  next
    case False
    then have "map_of t1 k = map_of t k" by (simp add: m)
    then show ?thesis using Cons.IH [OF rest] False
      by (simp add: e ofKey_Cons rowOr_def)
  qed
qed

lemma addCandidates_map_of:
  "addCandidates env h t es = Inr t' \<Longrightarrow>
   map_of t' k = (if ofKey env h k es = [] then map_of t k
                  else Some ((rowOr t k)\<lparr>candidates := candidates (rowOr t k) @ ofKey env h k es\<rparr>))"
proof (induction es arbitrary: t)
  case Nil
  then show ?case by (simp add: ofKey_def)
next
  case (Cons e es)
  from Cons.prems obtain t1 where
    t1: "addCandidate env h t e = Inr t1" and rest: "addCandidates env h t1 es = Inr t'"
    by (auto split: sum.splits)
  from t1 obtain a where e: "e = Some a" by (cases e) (auto simp: addCandidate_None)
  note m = addCandidate_map_of [OF t1 [unfolded e]]
  show ?case
  proof (cases "keyOf env (recs h ! a) = k")
    case True
    then have "map_of t1 k = Some ((rowOr t k)\<lparr>candidates := candidates (rowOr t k) @ [Some a]\<rparr>)"
      by (simp add: m)
    then show ?thesis using Cons.IH [OF rest] True
      by (simp add: e ofKey_Cons rowOr_def)
  next
    case False
    then have "map_of t1 k = map_of t k" by (simp add: m)
    then show ?thesis using Cons.IH [OF rest] False
      by (simp add: e ofKey_Cons rowOr_def)
  qed
qed

lemma buildTable_map_of:
  assumes "buildTable env p h = Inr t"
    and "filterRecordsForPlan h (Current p) (Match p) (ManagedRecords p) = Inr currents"
    and "filterRecordsForPlan h (Desired p) (Match p) (ManagedRecords p) = Inr desireds"
  shows "map_of t k =
     (if ofKey env h k currents = [] \<and> ofKey env h k desireds = [] then None
      else Some \<lparr>current = currentOf env h k currents,
                 candidates = candidatesOf env h k desireds\<rparr>)"
proof -
  from buildTable_returns [OF assms(1)] assms(2,3) obtain t1 where
    t1: "addCurrents env h [] currents = Inr t1"
    and t: "addCandidates env h t1 desireds = Inr t"
    by auto
  have m1: "map_of t1 k = (if ofKey env h k currents = [] then None
      else Some \<lparr>current = last (ofKey env h k currents), candidates = []\<rparr>)"
    using addCurrents_map_of [OF t1, of k] by (simp add: rowOr_def)
  show ?thesis
    using addCandidates_map_of [OF t, of k] m1
    by (simp add: rowOr_def currentOf_def candidatesOf_def)
qed

lemma buildTable_row:
  assumes "buildTable env p h = Inr t"
    and "filterRecordsForPlan h (Current p) (Match p) (ManagedRecords p) = Inr currents"
    and "filterRecordsForPlan h (Desired p) (Match p) (ManagedRecords p) = Inr desireds"
    and "(k, r) \<in> set t"
  shows "r = \<lparr>current = currentOf env h k currents, candidates = candidatesOf env h k desireds\<rparr>"
proof -
  from buildTable_keys [OF assms(1)] have "distinct (map fst t)" by simp
  with assms(4) have "map_of t k = Some r" by simp
  with buildTable_map_of [OF assms(1-3), of k] show ?thesis by (simp split: if_splits)
qed

lemma buildTable_has_key:
  assumes "buildTable env p h = Inr t"
    and "filterRecordsForPlan h (Current p) (Match p) (ManagedRecords p) = Inr currents"
    and "filterRecordsForPlan h (Desired p) (Match p) (ManagedRecords p) = Inr desireds"
  shows "(k \<in> fst ` set t) = (ofKey env h k currents \<noteq> [] \<or> ofKey env h k desireds \<noteq> [])"
proof -
  have "(k \<in> fst ` set t) = (map_of t k \<noteq> None)" by (simp add: map_of_eq_None_iff)
  also have "\<dots> = (ofKey env h k currents \<noteq> [] \<or> ofKey env h k desireds \<noteq> [])"
    by (simp only: buildTable_map_of [OF assms]) simp
  finally show ?thesis .
qed

text \<open>
  Claim C10. Every row of the table that \<^verbatim>\<open>Calculate\<close> builds has a current record or at
  least one candidate, as rows only come from \<^verbatim>\<open>addCurrent\<close> and \<^verbatim>\<open>addCandidate\<close>. So the
  loop, which visits rows of the table, never calls \<^verbatim>\<open>ResolveCreate\<close> with an empty list
  of candidates.
\<close>

theorem buildTable_rows_nonempty:
  assumes "buildTable env p h = Inr t"
  shows "(\<forall>kr \<in> set t. current (snd kr) \<noteq> None \<or> candidates (snd kr) \<noteq> [])
     \<and> (set (rangeOrder env t) \<subseteq> set t \<longrightarrow> [] \<notin> set (resolveCreateCalls (rangeOrder env t)))"
  using buildTable_nonempty_rows [OF assms] by (fastforce simp: resolveCreateCalls_def)

text \<open>Claim C10 on the table of plan A, whose one row is created.\<close>

theorem buildTable_rows_nonempty_witness:
  "buildTable sampleEnv (defaultDomainFilter planA) heapA
     = Inr [(fooKey, \<lparr>current = None, candidates = [Some 0]\<rparr>)]
   \<and> set (rangeOrder sampleEnv [(fooKey, \<lparr>current = None, candidates = [Some 0]\<rparr>)])
       \<subseteq> set [(fooKey, \<lparr>current = None, candidates = [Some 0]\<rparr>)]
   \<and> resolveCreateCalls (rangeOrder sampleEnv [(fooKey, \<lparr>current = None, candidates = [Some 0]\<rparr>)])
       = [[Some 0]]"
  using buildTable_rows_nonempty [OF table_A]
  by (simp add: table_A resolveCreateCalls_def rangeOrder_sample)

subsection \<open>The store during the loop\<close>

lemma len_append1: "len (append1 s x) = Suc (len s)"
  by (simp add: len_def append1_def elems_def)

lemma elems_append1: "elems (append1 s x) = elems s @ [x]"
  by (simp add: append1_def elems_def)

text \<open>The five ways in which the body of the loop returns.\<close>

lemma migrateRow_eq:
  "migrateRow p a (h, c, m) =
     (case Labels (recs h ! a) of
        None \<Rightarrow> Inl NilMapAssignment
      | Some l \<Rightarrow>
          Inr (\<lparr>recs = recs h @ [(recs h ! a)\<lparr>Labels := Some (length (labelMaps h))\<rparr>],
                labelMaps = labelMaps h @ [(labelMaps h ! l)(OwnerLabelKey \<mapsto> TXTOwner p)]\<rparr>,
               c\<lparr>UpdateNew := append1 (UpdateNew c) (Some (length (recs h))),
                 UpdateOld := append1 (UpdateOld c) (Some a)\<rparr>,
               True))"
  by (simp add: migrateRow_def DeepCopy_def setLabel_def split: option.splits)

lemma rowStep_cases [consumes 1, case_names create delete noop update migrate]:
  assumes "rowStep env p row (h, c, m) = Inr (h1, c1, m1)"
  obtains
    "current row = None" "h1 = h" "m1 = m"
      "c1 = c\<lparr>Create := append1 (Create c) (ResolveCreate env h (candidates row))\<rparr>"
  | a where "current row = Some a" "candidates row = []" "h1 = h" "m1 = m"
      "c1 = c\<lparr>Delete := append1 (Delete c) (Some a)\<rparr>"
  | a u where "current row = Some a" "candidates row \<noteq> []"
      "ResolveUpdate env h (Some a) (candidates row) = Some u" "h1 = h" "m1 = m" "c1 = c"
  | a u where "current row = Some a" "candidates row \<noteq> []"
      "ResolveUpdate env h (Some a) (candidates row) = Some u"
      "inheritOwner h a u = Inr h1" "m1 = m"
      "c1 = c\<lparr>UpdateNew := append1 (UpdateNew c) (Some u),
               UpdateOld := append1 (UpdateOld c) (Some a)\<rparr>"
  | a l where "current row = Some a" "candidates row \<noteq> []" "TXTOwnerMigrate p"
      "lookup (labelsOf h (recs h ! a)) OwnerLabelKey = TXTOwnerOld p"
      "Labels (recs h ! a) = Some l" "m1 = True"
      "h1 = \<lparr>recs = recs h @ [(recs h ! a)\<lparr>Labels := Some (length (labelMaps h))\<rparr>],
              labelMaps = labelMaps h @ [(labelMaps h ! l)(OwnerLabelKey \<mapsto> TXTOwner p)]\<rparr>"
      "c1 = c\<lparr>UpdateNew := append1 (UpdateNew c) (Some (length (recs h))),
               UpdateOld := append1 (UpdateOld c) (Some a)\<rparr>"
proof (cases "current row")
  case None
  with assms have "h1 = h" "m1 = m"
    "c1 = c\<lparr>Create := append1 (Create c) (ResolveCreate env h (candidates row))\<rparr>"
    by (auto simp: rowStep_def Let_def)
  with None that(1) show ?thesis by blast
next
  case (Some a)
  show ?thesis
  proof (cases "candidates row = []")
    case True
    with assms Some have "h1 = h" "m1 = m" "c1 = c\<lparr>Delete := append1 (Delete c) (Some a)\<rparr>"
      by (auto simp: rowStep_def Let_def)
    with Some True that(2) show ?thesis by blast
  next
    case False
    show ?thesis
    proof (cases "TXTOwnerMigrate p
        \<and> lookup (labelsOf h (recs h ! a)) OwnerLabelKey = TXTOwnerOld p")
      case True
      with assms Some False have "migrateRow p a (h, c, m) = Inr (h1, c1, m1)"
        by (simp add: rowStep_def Let_def)
      with True Some False that(5) [of a] show ?thesis
        by (simp add: migrateRow_eq split: option.splits)
    next
      case no: False
      with assms Some False have u: "updateRow env p a (candidates row) (h, c, m) = Inr (h1, c1, m1)"
        by (auto simp: rowStep_def Let_def)
      then obtain u where r: "ResolveUpdate env h (Some a) (candidates row) = Some u"
        by (auto simp: updateRow_def split: option.splits)
      show ?thesis
      proof (cases "shouldUpdateTTL env (recs h ! u) (recs h ! a)
                \<or> targetChanged env (recs h ! u) (recs h ! a)
                \<or> shouldUpdateProviderSpecific p (recs h ! u) (recs h ! a)")
        case True
        with u r obtain h' where "inheritOwner h a u = Inr h'" "h1 = h'" "m1 = m"
          "c1 = c\<lparr>UpdateNew := append1 (UpdateNew c) (Some u),
                   UpdateOld := append1 (UpdateOld c) (Some a)\<rparr>"
          by (auto simp: updateRow_def split: sum.splits)
        with Some False r that(4) [of a u] show ?thesis by simp
      next
        case False
        with u r have "h1 = h" "m1 = m" "c1 = c" by (auto simp: updateRow_def)
        with Some \<open>candidates row \<noteq> []\<close> r that(3) [of a u] show ?thesis by simp
      qed
    qed
  qed
qed

text \<open>The store grows.\<close>

lemma sameButLabels_fields:
  "sameButLabels x y =
     (DNSName y = DNSName x \<and> Targets y = Targets x \<and> RecordType y = RecordType x
      \<and> SetIdentifier y = SetIdentifier x \<and> RecordTTL y = RecordTTL x
      \<and> ProviderSpecific y = ProviderSpecific x)"
  by (cases x; cases y) (auto simp: sameButLabels_def)

lemma grows_iff:
  "grows h h' = (length (recs h) \<le> length (recs h')
     \<and> (\<forall>a < length (recs h). sameButLabels (recs h ! a) (recs h' ! a)))"
  by (auto simp: grows_def list_all_iff)

lemma grows_refl: "grows h h"
  by (simp add: grows_iff sameButLabels_fields)

lemma grows_trans: "grows h1 h2 \<Longrightarrow> grows h2 h3 \<Longrightarrow> grows h1 h3"
  by (fastforce simp: grows_iff sameButLabels_fields)

lemma grows_makeLabels: "grows h (makeLabels h a)"
proof (cases "a < length (recs h)")
  case True
  then show ?thesis
    by (simp add: grows_iff makeLabels_def sameButLabels_fields nth_list_update)
next
  case False
  then show ?thesis
    by (simp add: grows_iff makeLabels_def sameButLabels_fields)
qed

lemma grows_setLabel: "grows h (setLabel h l k v)"
  by (simp add: grows_iff setLabel_def sameButLabels_fields)

lemma recs_makeLabels: "length (recs (makeLabels h a)) = length (recs h)"
  by (simp add: makeLabels_def)

lemma recs_setLabel: "recs (setLabel h l k v) = recs h"
  by (simp add: setLabel_def)

lemma inheritOwner_grows:
  assumes "inheritOwner h a u = Inr h'"
  shows "grows h h' \<and> length (recs h') = length (recs h)"
proof -
  define h1 where "h1 = (if Labels (recs h ! u) = None then makeLabels h u else h)"
  define h2 where "h2 = (if Labels (recs h1 ! a) = None then makeLabels h1 a else h1)"
  have "inheritOwner h a u =
      (case Labels (recs h2 ! u) of
         None \<Rightarrow> Inl NilMapAssignment
       | Some l \<Rightarrow> Inr (setLabel h2 l OwnerLabelKey
                          (lookup (labelsOf h2 (recs h2 ! a)) OwnerLabelKey)))"
    by (simp only: inheritOwner_def Let_def h1_def h2_def)
  with assms obtain l v where h': "h' = setLabel h2 l OwnerLabelKey v"
    by (cases "Labels (recs h2 ! u)") auto
  have 1: "grows h h1" "length (recs h1) = length (recs h)"
    by (simp_all add: h1_def grows_refl grows_makeLabels recs_makeLabels)
  have 2: "grows h1 h2" "length (recs h2) = length (recs h1)"
    by (simp_all add: h2_def grows_refl grows_makeLabels recs_makeLabels)
  have 3: "grows h2 h'" "length (recs h') = length (recs h2)"
    by (simp_all add: h' grows_setLabel recs_setLabel)
  from 1 2 3 show ?thesis by (metis grows_trans)
qed

lemma rowStep_grows:
  assumes "rowStep env p row (h, c, m) = Inr (h1, c1, m1)"
  shows "grows h h1"
  using assms
proof (cases rule: rowStep_cases)
  case (update a u)
  then show ?thesis by (simp add: inheritOwner_grows)
next
  case (migrate a l)
  then show ?thesis by (simp add: grows_iff sameButLabels_fields nth_append)
qed (simp_all add: grows_refl)

lemma rowsLoop_grows:
  "rowsLoop env p rows (h, c, m) = Inr (h', c', m') \<Longrightarrow> grows h h'"
proof (induction rows arbitrary: h c m)
  case Nil
  then show ?case by (simp add: grows_refl)
next
  case (Cons kr rows)
  from Cons.prems obtain h1 c1 m1 where
    s: "rowStep env p (snd kr) (h, c, m) = Inr (h1, c1, m1)"
    and r: "rowsLoop env p rows (h1, c1, m1) = Inr (h', c', m')"
    by (auto split: sum.splits)
  from rowStep_grows [OF s] Cons.IH [OF r] show ?case by (rule grows_trans)
qed

text \<open>Once \<^verbatim>\<open>hasMig\<close> is set it stays set.\<close>

lemma rowStep_flag:
  assumes "rowStep env p row (h, c, True) = Inr (h', c', m')"
  shows "m'"
  using assms by (cases rule: rowStep_cases) simp_all

lemma rowsLoop_flag:
  "rowsLoop env p rows (h, c, True) = Inr (h', c', m') \<Longrightarrow> m'"
proof (induction rows arbitrary: h c)
  case Nil
  then show ?case by simp
next
  case (Cons kr rows)
  from Cons.prems obtain h1 c1 m1 where
    s: "rowStep env p (snd kr) (h, c, True) = Inr (h1, c1, m1)"
    and r: "rowsLoop env p rows (h1, c1, m1) = Inr (h', c', m')"
    by (auto split: sum.splits)
  from rowStep_flag [OF s] r show ?case by (auto intro: Cons.IH)
qed

lemma rowsLoop_append:
  "rowsLoop env p (xs @ ys) st
     = (case rowsLoop env p xs st of Inl x \<Rightarrow> Inl x | Inr st' \<Rightarrow> rowsLoop env p ys st')"
  by (induction xs arbitrary: st) (auto split: sum.splits)

subsection \<open>The migration branch\<close>

text \<open>
  The branch is taken when the one-valued read of the owner label gives \<^verbatim>\<open>TXTOwnerOld\<close>,
  which for a record without owner label is the case when \<^verbatim>\<open>TXTOwnerOld\<close> is empty. It
  returns when the label map is not nil, and panics on the nil map of the copy otherwise.
\<close>

lemma rowStep_migrates:
  assumes "TXTOwnerMigrate p" and "current row = Some a"
    and "candidates row \<noteq> []"
    and "Labels (recs h ! a) = Some l"
    and "lookup (labelsOf h (recs h ! a)) OwnerLabelKey = TXTOwnerOld p"
  shows "rowStep env p row (h, c, m)
     = Inr (\<lparr>recs = recs h @ [(recs h ! a)\<lparr>Labels := Some (length (labelMaps h))\<rparr>],
             labelMaps = labelMaps h @ [(labelMaps h ! l)(OwnerLabelKey \<mapsto> TXTOwner p)]\<rparr>,
            c\<lparr>UpdateNew := append1 (UpdateNew c) (Some (length (recs h))),
              UpdateOld := append1 (UpdateOld c) (Some a)\<rparr>,
            True)"
  using assms by (simp add: rowStep_def Let_def migrateRow_eq)

lemma rowStep_nil_labels:
  assumes "TXTOwnerMigrate p" and "current row = Some a"
    and "candidates row \<noteq> []"
    and "Labels (recs h ! a) = None" and "TXTOwnerOld p = []"
  shows "rowStep env p row (h, c, m) = Inl NilMapAssignment"
  using assms
  by (simp add: rowStep_def Let_def migrateRow_eq lookup_def lookupOk_def labelsOf_def)

lemma rowStep_D:
  "rowStep sampleEnv (defaultDomainFilter planD) \<lparr>current = Some 0, candidates = [Some 1]\<rparr>
     (heapD, emptyChanges, False) = Inr (storeD, changesD, True)"
  by (simp add: planD_def heapD_def storeD_def changesD_def sample_defs step_defs)

text \<open>
  Claim C5. For every row with a current record and at least one candidate, when migration
  is enabled and the owner label of the current record is \<^verbatim>\<open>TXTOwnerOld\<close>, the body of the
  loop adds exactly one update pair: the new half is a newly allocated copy of the current
  record, with a label map of its own that has the entries of the current record but for
  the owner label, which is \<^verbatim>\<open>TXTOwner\<close>; the old half is the current record, which stays
  as it was, and so does its label map; and \<^verbatim>\<open>hasMig\<close> is set. Neither the resolver nor the
  predicates for TTL, targets and provider-specific properties have a say: the result is
  the same in every environment. When this happens in a run of \<^verbatim>\<open>Calculate\<close>, the plan it
  returns has \<open>HasMig\<close> set.
\<close>

theorem migration_pair:
  assumes "TXTOwnerMigrate p" and "current row = Some a" and "a < length (recs h)"
    and "candidates row \<noteq> []"
    and "Labels (recs h ! a) = Some l"
    and "(labelMaps h ! l) OwnerLabelKey = Some (TXTOwnerOld p)"
  shows "\<exists>h1. rowStep env p row (h, c, m)
         = Inr (h1, c\<lparr>UpdateNew := append1 (UpdateNew c) (Some (length (recs h))),
                     UpdateOld := append1 (UpdateOld c) (Some a)\<rparr>,
                True)
     \<and> h1 = \<lparr>recs = recs h @ [(recs h ! a)\<lparr>Labels := Some (length (labelMaps h))\<rparr>],
             labelMaps = labelMaps h @ [(labelMaps h ! l)(OwnerLabelKey \<mapsto> TXTOwner p)]\<rparr>
     \<and> sameButLabels (recs h ! a) (recs h1 ! length (recs h))
     \<and> labelsOf h1 (recs h1 ! length (recs h))
         = Some ((labelMaps h ! l)(OwnerLabelKey \<mapsto> TXTOwner p))
     \<and> recs h1 ! a = recs h ! a
     \<and> take (length (recs h)) (recs h1) = recs h
     \<and> take (length (labelMaps h)) (labelMaps h1) = labelMaps h
     \<and> (l < length (labelMaps h) \<longrightarrow> labelsOf h1 (recs h1 ! a) = labelsOf h (recs h ! a))
     \<and> (\<forall>env'. rowStep env' p row (h, c, m) = rowStep env p row (h, c, m))
     \<and> (\<forall>p0 h0 t k pre post out.
           p = defaultDomainFilter p0 \<and> Calculate env p0 h0 = Inr out
           \<and> buildTable env p h0 = Inr t \<and> rangeOrder env t = pre @ (k, row) # post
           \<and> rowsLoop env p pre (h0, emptyChanges, False) = Inr (h, c, m)
           \<longrightarrow> HasMig (returned out))"
proof -
  define h1 where
    "h1 = \<lparr>recs = recs h @ [(recs h ! a)\<lparr>Labels := Some (length (labelMaps h))\<rparr>],
           labelMaps = labelMaps h @ [(labelMaps h ! l)(OwnerLabelKey \<mapsto> TXTOwner p)]\<rparr>"
  have l: "lookup (labelsOf h (recs h ! a)) OwnerLabelKey = TXTOwnerOld p"
    using assms(5,6) by (simp add: lookup_def lookupOk_def labelsOf_def)
  have step: "rowStep env' p row (h, c, m)
     = Inr (h1, c\<lparr>UpdateNew := append1 (UpdateNew c) (Some (length (recs h))),
                  UpdateOld := append1 (UpdateOld c) (Some a)\<rparr>, True)" for env'
    unfolding h1_def by (rule rowStep_migrates [OF assms(1,2,4,5) l])
  have flag: "HasMig (returned out)"
    if p: "p = defaultDomainFilter p0" and calc: "Calculate env p0 h0 = Inr out"
      and t: "buildTable env p h0 = Inr t" and order: "rangeOrder env t = pre @ (k, row) # post"
      and pre: "rowsLoop env p pre (h0, emptyChanges, False) = Inr (h, c, m)"
    for p0 h0 t k pre post out
  proof -
    from Calculate_returns [OF calc] t obtain h' raw mig final where
      d: "detectChanges env p h0 t = Inr (h', raw, mig)"
      and out: "out = \<lparr>returned = returnedPlan (Current p0) (Desired p0) final mig,
          receiver = p, store = h'\<rparr>"
      unfolding p by auto
    from d have "rowsLoop env p post
        (h1, c\<lparr>UpdateNew := append1 (UpdateNew c) (Some (length (recs h))),
               UpdateOld := append1 (UpdateOld c) (Some a)\<rparr>, True) = Inr (h', raw, mig)"
      by (simp add: detectChanges_def order rowsLoop_append pre step)
    then have mig by (rule rowsLoop_flag)
    then show ?thesis by (simp add: out returnedPlan_def)
  qed
  have copy: "sameButLabels (recs h ! a) (recs h1 ! length (recs h))"
    "labelsOf h1 (recs h1 ! length (recs h))
       = Some ((labelMaps h ! l)(OwnerLabelKey \<mapsto> TXTOwner p))"
    by (simp_all add: h1_def sameButLabels_fields labelsOf_def)
  have old: "recs h1 ! a = recs h ! a" "take (length (recs h)) (recs h1) = recs h"
    "take (length (labelMaps h)) (labelMaps h1) = labelMaps h"
    "l < length (labelMaps h) \<longrightarrow> labelsOf h1 (recs h1 ! a) = labelsOf h (recs h ! a)"
    using assms(3,5) by (simp_all add: h1_def nth_append labelsOf_def)
  have same: "\<forall>env'. rowStep env' p row (h, c, m) = rowStep env p row (h, c, m)"
    by (simp add: step)
  from step [of env] copy old same flag show ?thesis
    unfolding h1_def [symmetric] by blast
qed

text \<open>Claim C5 on plan D, whose current record is owned by \<^verbatim>\<open>old\<close>.\<close>

theorem migration_pair_witness:
  "TXTOwnerMigrate (defaultDomainFilter planD)
   \<and> Labels (recs heapD ! 0) = Some 0
   \<and> labelMaps heapD ! 0 = [OwnerLabelKey \<mapsto> ''old'']
   \<and> TXTOwnerOld (defaultDomainFilter planD) = ''old''
   \<and> buildTable sampleEnv (defaultDomainFilter planD) heapD = Inr tableD
   \<and> rangeOrder sampleEnv tableD = [] @ (fooKey, \<lparr>current = Some 0, candidates = [Some 1]\<rparr>) # []
   \<and> rowStep sampleEnv (defaultDomainFilter planD) \<lparr>current = Some 0, candidates = [Some 1]\<rparr>
        (heapD, emptyChanges, False) = Inr (storeD, changesD, True)
   \<and> recs storeD ! 2 = (recs heapD ! 0)\<lparr>Labels := Some 1\<rparr>
   \<and> labelMaps storeD ! 1 = [OwnerLabelKey \<mapsto> ''new'']
   \<and> recs storeD ! 0 = recs heapD ! 0
   \<and> labelMaps storeD ! 0 = labelMaps heapD ! 0
   \<and> Calculate sampleEnv planD heapD = Inr outcomeD
   \<and> HasMig (returned outcomeD)"
proof -
  let ?p = "defaultDomainFilter planD"
  let ?row = "\<lparr>current = Some 0, candidates = [Some 1]\<rparr>"
  have a: "TXTOwnerMigrate ?p" "current ?row = Some 0" "0 < length (recs heapD)"
    "candidates ?row \<noteq> []"
    "Labels (recs heapD ! 0) = Some 0"
    "(labelMaps heapD ! 0) OwnerLabelKey = Some (TXTOwnerOld ?p)"
    by (simp_all add: planD_def heapD_def sample_defs)
  have o: "rangeOrder sampleEnv tableD = [] @ (fooKey, ?row) # []"
    by (simp add: sampleEnv_def tableD_def)
  have pre: "rowsLoop sampleEnv ?p [] (heapD, emptyChanges, False) = Inr (heapD, emptyChanges, False)"
    by simp
  have s: "recs storeD ! 2 = (recs heapD ! 0)\<lparr>Labels := Some 1\<rparr>"
    "labelMaps storeD ! 1 = [OwnerLabelKey \<mapsto> ''new'']"
    "recs storeD ! 0 = recs heapD ! 0" "labelMaps storeD ! 0 = labelMaps heapD ! 0"
    "TXTOwnerOld ?p = ''old''" "labelMaps heapD ! 0 = [OwnerLabelKey \<mapsto> ''old'']"
    by (simp_all add: storeD_def heapD_def planD_def sample_defs)
  from migration_pair [OF a, of sampleEnv emptyChanges False]
  have "HasMig (returned outcomeD)"
    using Calculate_D table_D o pre by blast
  then show ?thesis
    using a(1,5) o s table_D rowStep_D Calculate_D by simp
qed

subsection \<open>The pairing of the update lists\<close>

text \<open>Plan E: the desired record gets the empty owner and passes the filter alone.\<close>

lemma table_E:
  "buildTable sampleEnv (defaultDomainFilter planE) heapE = Inr tableD"
  by (simp add: planE_def heapE_def tableD_def sample_defs table_defs)

lemma detect_E:
  "detectChanges sampleEnv (defaultDomainFilter planE) heapE tableD
     = Inr (storeE, rawB, False)"
  by (simp add: planE_def heapE_def storeE_def rawB_def tableD_def sample_defs step_defs)

lemma missing_E:
  "addMissing (defaultDomainFilter planE) storeE
     (applyPolicies (Policies (defaultDomainFilter planE)) c) = Inr c"
  by (simp add: planE_def sample_defs addMissing_def)

lemma final_E: "finalChanges (defaultDomainFilter planE) storeE
   rawB = Inr changesE"
  by (simp add: planE_def storeE_def changesE_def rawB_def sample_defs final_defs)

lemma Calculate_E: "Calculate sampleEnv planE heapE = Inr outcomeE"
  using Calculate_stages [OF table_E detect_E missing_E final_E]
  by (simp add: outcomeE_def planE_def sample_defs)

text \<open>
  Claim C4 says that, without policies, the two update lists of the returned plan have the
  same length and the same keys, entry by entry. The code adds to both lists together, but
  it filters each by owner on its own. On plan C the migration branch takes a current record
  that has no owner label, because \<^verbatim>\<open>TXTOwnerOld\<close> is empty: the copy, owned by \<^verbatim>\<open>new\<close>,
  passes the filter and the current record does not. On plan E \<^verbatim>\<open>inheritOwner\<close> gives the
  desired record the empty owner of a current record without owner label, and the empty
  owner is the accepted one. Either way \<open>UpdateNew\<close> has one entry and \<open>UpdateOld\<close> is nil.
\<close>

theorem Calculate_unpaired_updates:
  "Policies planC = [] \<and> Calculate sampleEnv planC heapC = Inr outcomeC
   \<and> Changes (returned outcomeC) = Some changesC
   \<and> len (UpdateNew changesC) = 1 \<and> len (UpdateOld changesC) = 0
   \<and> \<not> paired sampleEnv (store outcomeC) changesC
   \<and> Policies planE = [] \<and> Calculate sampleEnv planE heapE = Inr outcomeE
   \<and> Changes (returned outcomeE) = Some changesE
   \<and> len (UpdateNew changesE) = 1 \<and> len (UpdateOld changesE) = 0
   \<and> \<not> paired sampleEnv (store outcomeE) changesE"
  by (simp add: Calculate_C Calculate_E)
     (simp add: outcomeC_def outcomeE_def planC_def planE_def samplePlan_def returnedPlan_def
        changesC_def changesE_def paired_def len_def elems_def)

subsection \<open>The records of the caller\<close>

text \<open>Plan F: the write into the shared label map.\<close>

lemma table_F:
  "buildTable sampleEnv (defaultDomainFilter planF) heapF = Inr tableD"
  by (simp add: planF_def heapF_def tableD_def sample_defs table_defs)

lemma detect_F:
  "detectChanges sampleEnv (defaultDomainFilter planF) heapF tableD = Inr (storeF, rawB, False)"
  by (simp add: planF_def heapF_def storeF_def rawB_def tableD_def sample_defs step_defs)

lemma missing_F:
  "addMissing (defaultDomainFilter planF) storeF
     (applyPolicies (Policies (defaultDomainFilter planF)) c) = Inr c"
  by (simp add: planF_def sample_defs addMissing_def)

lemma final_F: "finalChanges (defaultDomainFilter planF) storeF rawB = Inr changesB"
  by (simp add: planF_def storeF_def heapF_def changesB_def rawB_def sample_defs final_defs)

lemma Calculate_F: "Calculate sampleEnv planF heapF = Inr outcomeF"
  using Calculate_stages [OF table_F detect_F missing_F final_F]
  by (simp add: outcomeF_def planF_def sample_defs)

text \<open>Plan G: the desired record is a current record as well.\<close>

lemma table_G:
  "buildTable sampleEnv (defaultDomainFilter planG) heapG = Inr tableG"
  by (simp add: planG_def heapG_def tableG_def sample_defs table_defs)

lemma detect_G:
  "detectChanges sampleEnv (defaultDomainFilter planG) heapG tableG = Inr (storeG, changesG, False)"
  by (simp add: planG_def heapG_def storeG_def changesG_def tableG_def sample_defs step_defs)

lemma missing_G:
  "addMissing (defaultDomainFilter planG) storeG
     (applyPolicies (Policies (defaultDomainFilter planG)) c) = Inr c"
  by (simp add: planG_def sample_defs addMissing_def)

lemma final_G: "finalChanges (defaultDomainFilter planG) storeG changesG = Inr changesG"
  by (simp add: planG_def storeG_def changesG_def sample_defs final_defs)

lemma Calculate_G: "Calculate sampleEnv planG heapG = Inr outcomeG"
  using Calculate_stages [OF table_G detect_G missing_G final_G]
  by (simp add: outcomeG_def planG_def sample_defs)

text \<open>
  Claim C8 as stated, that every record of \<open>Current\<close> is unchanged, fails in three ways,
  each time by a write of \<^verbatim>\<open>inheritOwner\<close>. On plan B the current record has the nil label
  map before the call and an empty one after it. On plan F the current record shares its
  label map with the desired record, another record, and after the call its labels have
  an owner entry that they did not have. On plan G the first record of \<open>Current\<close> is the
  desired record as well, and after the call it has the owner label of the second.
\<close>

theorem Calculate_changes_current_labels:
  "Calculate sampleEnv planB heapB = Inr outcomeB
   \<and> Some 0 \<in> set (Current planB)
   \<and> allocated planB heapB \<and> unshared planB heapB
   \<and> labelsOf heapB (recs heapB ! 0) = None
   \<and> labelsOf (store outcomeB) (recs (store outcomeB) ! 0) = Some Map.empty
   \<and> recs (store outcomeB) ! 0 \<noteq> recs heapB ! 0
   \<and> Calculate sampleEnv planF heapF = Inr outcomeF
   \<and> Some 0 \<in> set (Current planF)
   \<and> allocated planF heapF \<and> set (Current planF) \<inter> set (Desired planF) = {}
   \<and> \<not> unshared planF heapF
   \<and> labelsOf heapF (recs heapF ! 0) = Some Map.empty
   \<and> labelsOf (store outcomeF) (recs (store outcomeF) ! 0) = Some [OwnerLabelKey \<mapsto> '''']
   \<and> \<not> keptUpToLabels heapF (store outcomeF) 0
   \<and> Calculate sampleEnv planG heapG = Inr outcomeG
   \<and> Some 0 \<in> set (Current planG)
   \<and> allocated planG heapG \<and> \<not> unshared planG heapG
   \<and> labelsOf heapG (recs heapG ! 0) = None
   \<and> labelsOf (store outcomeG) (recs (store outcomeG) ! 0) = Some [OwnerLabelKey \<mapsto> ''me'']
   \<and> \<not> keptUpToLabels heapG (store outcomeG) 0"
proof -
  have b: "Some 0 \<in> set (Current planB)" "allocated planB heapB" "unshared planB heapB"
    "labelsOf heapB (recs heapB ! 0) = None"
    "labelsOf (store outcomeB) (recs (store outcomeB) ! 0) = Some Map.empty"
    "recs (store outcomeB) ! 0 \<noteq> recs heapB ! 0"
    by (simp_all add: planB_def samplePlan_def heapB_def outcomeB_def storeB_def fooRecord_def
          allocated_def unshared_def labelsOf_def)
  have m: "[OwnerLabelKey \<mapsto> ''''] \<noteq> Map.empty" "[OwnerLabelKey \<mapsto> ''me''] \<noteq> Map.empty"
    by simp_all
  have f: "Some 0 \<in> set (Current planF)" "allocated planF heapF"
    "set (Current planF) \<inter> set (Desired planF) = {}" "\<not> unshared planF heapF"
    "labelsOf heapF (recs heapF ! 0) = Some Map.empty"
    "labelsOf (store outcomeF) (recs (store outcomeF) ! 0) = Some [OwnerLabelKey \<mapsto> '''']"
    by (simp_all add: planF_def samplePlan_def heapF_def outcomeF_def storeF_def fooRecord_def
          allocated_def unshared_def labelsOf_def)
  have f': "\<not> keptUpToLabels heapF (store outcomeF) 0"
    using m(1)
    by (simp add: keptUpToLabels_def heapF_def outcomeF_def storeF_def fooRecord_def
          labelsOf_def)
  have g: "Some 0 \<in> set (Current planG)" "allocated planG heapG" "\<not> unshared planG heapG"
    "labelsOf heapG (recs heapG ! 0) = None"
    "labelsOf (store outcomeG) (recs (store outcomeG) ! 0) = Some [OwnerLabelKey \<mapsto> ''me'']"
    by (simp_all add: planG_def samplePlan_def heapG_def outcomeG_def storeG_def fooRecord_def
          allocated_def unshared_def labelsOf_def)
  have g': "\<not> keptUpToLabels heapG (store outcomeG) 0"
    using m(2)
    by (simp add: keptUpToLabels_def heapG_def outcomeG_def storeG_def fooRecord_def
          labelsOf_def)
  from b f f' g g' Calculate_B Calculate_F Calculate_G show ?thesis by simp
qed

text \<open>The three predicates on a plan and a store, pointer by pointer.\<close>

lemma allocated_iff:
  "allocated p h =
     (\<forall>a. Some a \<in> set (Current p) \<union> set (Desired p) \<longrightarrow>
        a < length (recs h)
        \<and> (\<forall>l. Labels (recs h ! a) = Some l \<longrightarrow> l < length (labelMaps h)))"
  by (auto simp: allocated_def list_all_iff split: option.splits)

lemma unshared_iff:
  "unshared p h =
     (\<forall>a b. Some a \<in> set (Current p) \<longrightarrow> Some b \<in> set (Desired p) \<longrightarrow>
        a \<noteq> b \<and> (\<forall>l. Labels (recs h ! a) = Some l \<longrightarrow> Labels (recs h ! b) \<noteq> Some l))"
  by (fastforce simp: unshared_def list_all_iff split: option.splits)

lemma keeps_iff:
  "keeps p h h' = (\<forall>a. Some a \<in> set (Current p) \<longrightarrow> keptUpToLabels h h' a)"
  by (auto simp: keeps_def list_all_iff split: option.splits)

lemma keptUpToLabels_refl: "keptUpToLabels h h a"
  by (simp add: keptUpToLabels_def sameButLabels_fields labelsOf_def split: option.splits)

lemma keptUpToLabels_trans:
  "keptUpToLabels h1 h2 a \<Longrightarrow> keptUpToLabels h2 h3 a \<Longrightarrow> keptUpToLabels h1 h3 a"
  by (auto simp: keptUpToLabels_def sameButLabels_fields labelsOf_def split: option.splits)

lemma keeps_refl: "keeps p h h"
  by (simp add: keeps_iff keptUpToLabels_refl)

lemma keeps_trans: "keeps p h1 h2 \<Longrightarrow> keeps p h2 h3 \<Longrightarrow> keeps p h1 h3"
  by (meson keeps_iff keptUpToLabels_trans)

text \<open>The writes one by one.\<close>

lemma nth_makeLabels:
  "a < length (recs h) \<Longrightarrow>
   recs (makeLabels h a) ! x =
     (if x = a then (recs h ! a)\<lparr>Labels := Some (length (labelMaps h))\<rparr> else recs h ! x)"
  by (simp add: makeLabels_def)

lemma labelMaps_makeLabels: "labelMaps (makeLabels h a) = labelMaps h @ [Map.empty]"
  by (simp add: makeLabels_def)

lemma labelMaps_setLabel:
  "labelMaps (setLabel h l k v) = (labelMaps h)[l := (labelMaps h ! l)(k \<mapsto> v)]"
  by (simp add: setLabel_def)

lemma makeLabels_desired:
  assumes "allocated p h" and "unshared p h" and "Some u \<in> set (Desired p)"
    and "Labels (recs h ! u) = None"
  shows "allocated p (makeLabels h u) \<and> unshared p (makeLabels h u) \<and> keeps p h (makeLabels h u)"
proof -
  from assms(1,3) have u: "u < length (recs h)" by (simp add: allocated_iff)
  note n = nth_makeLabels [OF u]
  have a: "allocated p (makeLabels h u)"
    using assms(1) unfolding allocated_iff
    by (auto simp: n recs_makeLabels labelMaps_makeLabels less_Suc_eq)
  have s: "unshared p (makeLabels h u)"
    unfolding unshared_iff
  proof (intro allI impI)
    fix a b assume ab: "Some a \<in> set (Current p)" "Some b \<in> set (Desired p)"
    with assms(2) have 1: "a \<noteq> b"
      "\<forall>l. Labels (recs h ! a) = Some l \<longrightarrow> Labels (recs h ! b) \<noteq> Some l"
      by (simp_all add: unshared_iff)
    from assms(2,3) ab(1) have 2: "a \<noteq> u" by (auto simp: unshared_iff)
    from assms(1) ab(1) have 3: "\<forall>l. Labels (recs h ! a) = Some l \<longrightarrow> l < length (labelMaps h)"
      by (simp add: allocated_iff)
    from 1 2 3 show "a \<noteq> b \<and> (\<forall>l. Labels (recs (makeLabels h u) ! a) = Some l \<longrightarrow>
        Labels (recs (makeLabels h u) ! b) \<noteq> Some l)"
      by (auto simp: n)
  qed
  have k: "keeps p h (makeLabels h u)"
    unfolding keeps_iff
  proof (intro allI impI)
    fix a assume a: "Some a \<in> set (Current p)"
    from assms(2,3) a have 2: "a \<noteq> u" by (auto simp: unshared_iff)
    from assms(1) a have 3: "\<forall>l. Labels (recs h ! a) = Some l \<longrightarrow> l < length (labelMaps h)"
      by (simp add: allocated_iff)
    from 2 3 show "keptUpToLabels h (makeLabels h u) a"
      by (auto simp: keptUpToLabels_def n labelMaps_makeLabels sameButLabels_fields
            labelsOf_def nth_append split: option.splits)
  qed
  from a s k show ?thesis by simp
qed

lemma makeLabels_current:
  assumes "allocated p h" and "unshared p h" and "Some c \<in> set (Current p)"
    and "Labels (recs h ! c) = None"
  shows "allocated p (makeLabels h c) \<and> unshared p (makeLabels h c) \<and> keeps p h (makeLabels h c)"
proof -
  from assms(1,3) have c: "c < length (recs h)" by (simp add: allocated_iff)
  note n = nth_makeLabels [OF c]
  have a: "allocated p (makeLabels h c)"
    using assms(1) unfolding allocated_iff
    by (auto simp: n recs_makeLabels labelMaps_makeLabels less_Suc_eq)
  have s: "unshared p (makeLabels h c)"
    unfolding unshared_iff
  proof (intro allI impI)
    fix a b assume ab: "Some a \<in> set (Current p)" "Some b \<in> set (Desired p)"
    with assms(2) have 1: "a \<noteq> b"
      "\<forall>l. Labels (recs h ! a) = Some l \<longrightarrow> Labels (recs h ! b) \<noteq> Some l"
      by (simp_all add: unshared_iff)
    from assms(2,3) ab(2) have 2: "b \<noteq> c" by (auto simp: unshared_iff)
    from assms(1) ab(2) have 3: "\<forall>l. Labels (recs h ! b) = Some l \<longrightarrow> l < length (labelMaps h)"
      by (simp add: allocated_iff)
    from 1 2 3 show "a \<noteq> b \<and> (\<forall>l. Labels (recs (makeLabels h c) ! a) = Some l \<longrightarrow>
        Labels (recs (makeLabels h c) ! b) \<noteq> Some l)"
      by (auto simp: n)
  qed
  have k: "keeps p h (makeLabels h c)"
    unfolding keeps_iff
  proof (intro allI impI)
    fix a assume a: "Some a \<in> set (Current p)"
    from assms(1) a have 3: "\<forall>l. Labels (recs h ! a) = Some l \<longrightarrow> l < length (labelMaps h)"
      by (simp add: allocated_iff)
    from 3 assms(4) show "keptUpToLabels h (makeLabels h c) a"
      by (auto simp: keptUpToLabels_def n labelMaps_makeLabels sameButLabels_fields
            labelsOf_def nth_append split: option.splits)
  qed
  from a s k show ?thesis by simp
qed

lemma setLabel_desired:
  assumes "allocated p h" and "unshared p h" and "Some u \<in> set (Desired p)"
    and "Labels (recs h ! u) = Some l"
  shows "allocated p (setLabel h l k v) \<and> unshared p (setLabel h l k v)
     \<and> keeps p h (setLabel h l k v)"
proof -
  have a: "allocated p (setLabel h l k v)"
    using assms(1) by (simp add: allocated_iff recs_setLabel labelMaps_setLabel)
  have s: "unshared p (setLabel h l k v)"
    using assms(2) by (simp add: unshared_iff recs_setLabel)
  have "keptUpToLabels h (setLabel h l k v) a" if a: "Some a \<in> set (Current p)" for a
  proof -
    from assms(2,3,4) a have "Labels (recs h ! a) \<noteq> Some l" by (auto simp: unshared_iff)
    then show ?thesis
      by (auto simp: keptUpToLabels_def recs_setLabel labelMaps_setLabel sameButLabels_fields
            labelsOf_def split: option.splits)
  qed
  with a s show ?thesis by (simp add: keeps_iff)
qed

lemma inheritOwner_keeps:
  assumes "inheritOwner h c u = Inr h'"
    and "allocated p h" and "unshared p h"
    and "Some c \<in> set (Current p)" and "Some u \<in> set (Desired p)"
  shows "allocated p h' \<and> unshared p h' \<and> keeps p h h'"
proof -
  define h1 where "h1 = (if Labels (recs h ! u) = None then makeLabels h u else h)"
  define h2 where "h2 = (if Labels (recs h1 ! c) = None then makeLabels h1 c else h1)"
  have "inheritOwner h c u =
      (case Labels (recs h2 ! u) of
         None \<Rightarrow> Inl NilMapAssignment
       | Some l \<Rightarrow> Inr (setLabel h2 l OwnerLabelKey
                          (lookup (labelsOf h2 (recs h2 ! c)) OwnerLabelKey)))"
    by (simp only: inheritOwner_def Let_def h1_def h2_def)
  with assms(1) obtain l v where l: "Labels (recs h2 ! u) = Some l"
    and h': "h' = setLabel h2 l OwnerLabelKey v"
    by (cases "Labels (recs h2 ! u)") auto
  have 1: "allocated p h1 \<and> unshared p h1 \<and> keeps p h h1"
    using makeLabels_desired [OF assms(2,3,5)] assms(2,3)
    by (simp add: h1_def keeps_refl)
  then have 2: "allocated p h2 \<and> unshared p h2 \<and> keeps p h1 h2"
    using makeLabels_current [of p h1 c] assms(4)
    by (simp add: h2_def keeps_refl)
  then have 3: "allocated p h' \<and> unshared p h' \<and> keeps p h2 h'"
    using setLabel_desired [of p h2 u l] assms(5) l by (simp add: h')
  from 1 2 3 show ?thesis by (meson keeps_trans)
qed

lemma migrate_keeps:
  assumes "allocated p h" and "unshared p h"
    and "h1 = \<lparr>recs = recs h @ [r], labelMaps = labelMaps h @ [mp]\<rparr>"
  shows "allocated p h1 \<and> unshared p h1 \<and> keeps p h h1"
proof -
  have r: "recs h1 ! a = recs h ! a" if "Some a \<in> set (Current p) \<union> set (Desired p)" for a
    using that assms(1) by (auto simp: assms(3) allocated_iff nth_append)
  have a: "allocated p h1"
    using assms(1) unfolding allocated_iff
    by (auto simp: assms(3) nth_append less_Suc_eq)
  have s: "unshared p h1"
    using assms(2) unfolding unshared_iff by (simp add: r)
  have "keptUpToLabels h h1 a" if a: "Some a \<in> set (Current p)" for a
  proof -
    from assms(1) a have "\<forall>l. Labels (recs h ! a) = Some l \<longrightarrow> l < length (labelMaps h)"
      by (simp add: allocated_iff)
    moreover have "recs h1 ! a = recs h ! a" using a by (simp add: r)
    moreover have "labelMaps h1 = labelMaps h @ [mp]" by (simp add: assms(3))
    ultimately show ?thesis
      by (auto simp: keptUpToLabels_def sameButLabels_fields labelsOf_def nth_append
               split: option.splits)
  qed
  with a s show ?thesis by (simp add: keeps_iff)
qed

text \<open>The rows whose pointers come from the two lists of the plan.\<close>

lemma rowStep_keeps:
  assumes step: "rowStep env p row (h, c, m) = Inr (h1, c1, m1)"
    and row: "current row = None \<or> current row \<in> set (Current p)"
      "set (candidates row) \<subseteq> set (Desired p)"
    and good: "allocated p h" "unshared p h"
    and resolver: "\<forall>h c cs. cs \<noteq> [] \<longrightarrow> ResolveUpdate env h c cs \<in> set cs"
  shows "allocated p h1 \<and> unshared p h1 \<and> keeps p h h1"
  using step
proof (cases rule: rowStep_cases)
  case (update a u)
  from resolver update(2) have "ResolveUpdate env h (Some a) (candidates row) \<in> set (candidates row)"
    by blast
  with update(3) row(2) have u: "Some u \<in> set (Desired p)" by auto
  from update(1) row(1) have a: "Some a \<in> set (Current p)" by simp
  from inheritOwner_keeps [OF update(4) good a u] show ?thesis .
next
  case (migrate a l)
  from migrate_keeps [OF good migrate(7)] show ?thesis .
qed (simp_all add: good keeps_refl)

lemma rowsLoop_keeps:
  assumes "rowsLoop env p rows (h, c, m) = Inr (h', c', m')"
    and "\<forall>kr \<in> set rows. (current (snd kr) = None \<or> current (snd kr) \<in> set (Current p))
            \<and> set (candidates (snd kr)) \<subseteq> set (Desired p)"
    and "allocated p h" and "unshared p h"
    and "\<forall>h c cs. cs \<noteq> [] \<longrightarrow> ResolveUpdate env h c cs \<in> set cs"
  shows "allocated p h' \<and> unshared p h' \<and> keeps p h h'"
  using assms(1-4)
proof (induction rows arbitrary: h c m)
  case Nil
  then show ?case by (simp add: keeps_refl)
next
  case (Cons kr rows)
  from Cons.prems(1) obtain hx cx mx where
    s: "rowStep env p (snd kr) (h, c, m) = Inr (hx, cx, mx)"
    and r: "rowsLoop env p rows (hx, cx, mx) = Inr (h', c', m')"
    by (auto split: sum.splits)
  from Cons.prems(2) have row: "current (snd kr) = None \<or> current (snd kr) \<in> set (Current p)"
    "set (candidates (snd kr)) \<subseteq> set (Desired p)" by simp_all
  from rowStep_keeps [OF s row Cons.prems(3,4) assms(5)]
  have 1: "allocated p hx" "unshared p hx" "keeps p h hx" by simp_all
  from Cons.IH [OF r _ 1(1,2)] Cons.prems(2)
  have 2: "allocated p h'" "unshared p h'" "keeps p hx h'" by simp_all
  from 1(3) 2 show ?case by (meson keeps_trans)
qed

lemma migrateRow_keeps_store:
  "migrateRow p a (h1, c, m) = Inr (h2, c', m') \<Longrightarrow>
   take (length (recs h1)) (recs h2) = recs h1
   \<and> take (length (labelMaps h1)) (labelMaps h2) = labelMaps h1"
  by (auto simp: migrateRow_eq split: option.splits)

text \<open>
  Claim C8, as amended. \<^verbatim>\<open>Calculate\<close> removes no record from the store and changes, in the
  records that exist, nothing but labels: name, type, set identifier, targets, TTL and
  provider-specific properties are as before. Take moreover a plan whose pointers are
  allocated and in which no current record is a desired record as well or shares its
  label map with one, a resolver whose \<^verbatim>\<open>ResolveUpdate\<close> returns one of the candidates,
  and a loop that visits rows of the table. Then \<^verbatim>\<open>Calculate\<close> leaves the labels of every
  record of \<open>Current\<close> as they were too, but for one thing: a nil label map of a current
  record may have become an empty map. The migration branch changes none of the records
  and none of the label maps that exist: what it writes to is the copy it has allocated.
\<close>

theorem Calculate_keeps_current:
  assumes "Calculate env p h = Inr out"
  shows "grows h (store out)
     \<and> (allocated p h \<and> unshared p h
          \<and> (\<forall>h c cs. cs \<noteq> [] \<longrightarrow> ResolveUpdate env h c cs \<in> set cs)
          \<and> (\<forall>t. set (rangeOrder env t) \<subseteq> set t)
        \<longrightarrow> (\<forall>a. Some a \<in> set (Current p) \<longrightarrow> keptUpToLabels h (store out) a))
     \<and> (\<forall>a h1 c m h2 c' m'. migrateRow p a (h1, c, m) = Inr (h2, c', m')
           \<longrightarrow> take (length (recs h1)) (recs h2) = recs h1
               \<and> take (length (labelMaps h1)) (labelMaps h2) = labelMaps h1)"
proof -
  let ?p = "defaultDomainFilter p"
  have same: "Current ?p = Current p" "Desired ?p = Desired p"
    by (simp_all add: defaultDomainFilter_def)
  then have good: "allocated ?p = allocated p" "unshared ?p = unshared p" "keeps ?p = keeps p"
    by (simp_all add: allocated_def unshared_def keeps_def fun_eq_iff)
  from Calculate_returns [OF assms] obtain t h' raw mig where
    t: "buildTable env ?p h = Inr t"
    and d: "rowsLoop env ?p (rangeOrder env t) (h, emptyChanges, False) = Inr (h', raw, mig)"
    and out: "store out = h'"
    by (auto simp: detectChanges_def)
  have "keptUpToLabels h h' a"
    if a: "Some a \<in> set (Current p)" and al: "allocated p h" and un: "unshared p h"
      and res: "\<forall>h c cs. cs \<noteq> [] \<longrightarrow> ResolveUpdate env h c cs \<in> set cs"
      and ord: "\<forall>t. set (rangeOrder env t) \<subseteq> set t"
    for a
  proof -
    from buildTable_pointers [OF t] ord
    have rows: "\<forall>kr \<in> set (rangeOrder env t).
        (current (snd kr) = None \<or> current (snd kr) \<in> set (Current ?p))
        \<and> set (candidates (snd kr)) \<subseteq> set (Desired ?p)"
      by blast
    from rowsLoop_keeps [OF d rows _ _ res] al un have "keeps p h h'" by (simp add: good)
    with a show ?thesis by (simp add: keeps_iff)
  qed
  then show ?thesis
    using rowsLoop_grows [OF d] migrateRow_keeps_store by (simp add: out)
qed

lemma sampleEnv_resolver:
  "\<forall>h c cs. cs \<noteq> [] \<longrightarrow> ResolveUpdate sampleEnv h c cs \<in> set cs"
  by (auto simp: sampleEnv_def firstCandidate_def split: list.splits)

lemma sampleEnv_order: "\<forall>t. set (rangeOrder sampleEnv t) \<subseteq> set t"
  by (simp add: sampleEnv_def)

text \<open>The amended claim C8 on plan B.\<close>

theorem Calculate_keeps_current_witness:
  "Calculate sampleEnv planB heapB = Inr outcomeB
   \<and> Current planB = [Some 0] \<and> Desired planB = [Some 1]
   \<and> allocated planB heapB \<and> unshared planB heapB
   \<and> ResolveUpdate sampleEnv heapB (Some 0) [Some 1] = Some 1
   \<and> rangeOrder sampleEnv tableD = tableD
   \<and> grows heapB (store outcomeB)
   \<and> keptUpToLabels heapB (store outcomeB) 0
   \<and> recs (store outcomeB) ! 0 = (recs heapB ! 0)\<lparr>Labels := Some 1\<rparr>
   \<and> labelMaps (store outcomeB) ! 1 = Map.empty"
proof -
  have a: "allocated planB heapB" "unshared planB heapB"
    by (simp_all add: planB_def samplePlan_def heapB_def allocated_def unshared_def fooRecord_def)
  have b: "Current planB = [Some 0]" "Desired planB = [Some 1]"
    "ResolveUpdate sampleEnv heapB (Some 0) [Some 1] = Some 1"
    "rangeOrder sampleEnv tableD = tableD"
    "recs (store outcomeB) ! 0 = (recs heapB ! 0)\<lparr>Labels := Some 1\<rparr>"
    "labelMaps (store outcomeB) ! 1 = Map.empty"
    by (simp_all add: planB_def samplePlan_def heapB_def sampleEnv_def firstCandidate_def
          outcomeB_def storeB_def fooRecord_def)
  from Calculate_keeps_current [OF Calculate_B] a sampleEnv_resolver sampleEnv_order
  have "grows heapB (store outcomeB)" "keptUpToLabels heapB (store outcomeB) 0"
    by (simp_all add: b(1))
  with a b Calculate_B show ?thesis by simp
qed

subsection \<open>The outcome of a key\<close>

text \<open>Keys and pointers in a store that has grown.\<close>

lemma keyOf_same: "sameButLabels x y \<Longrightarrow> keyOf env y = keyOf env x"
  by (simp add: keyOf_def sameButLabels_fields)

lemma keyOfPtr_grows:
  "grows h h' \<Longrightarrow> allocatedIn h e \<Longrightarrow> keyOfPtr env h' e = keyOfPtr env h e"
  by (cases e) (auto simp: keyOfPtr_def allocatedIn_def grows_iff keyOf_same)

lemma allocatedIn_grows: "grows h h' \<Longrightarrow> allocatedIn h e \<Longrightarrow> allocatedIn h' e"
  by (cases e) (auto simp: allocatedIn_def grows_iff)

lemma ofKey_grows:
  assumes "grows h h'" and "list_all (allocatedIn h) es"
  shows "ofKey env h' k es = ofKey env h k es"
  unfolding ofKey_def
  using assms by (intro filter_cong) (auto simp: list_all_iff keyOfPtr_grows)

lemma ofKey_snoc:
  "ofKey env h k (es @ [e]) = ofKey env h k es @ (if keyOfPtr env h e = Some k then [e] else [])"
  by (simp add: ofKey_def)

lemma entriesIn_grows: "grows h h' \<Longrightarrow> entriesIn h c \<Longrightarrow> entriesIn h' c"
  by (auto simp: entriesIn_def list_all_iff allocatedIn_grows)

lemma rowFor_grows: "grows h h' \<Longrightarrow> rowFor env h k r \<Longrightarrow> rowFor env h' k r"
  by (auto simp: rowFor_def list_all_iff allocatedIn_grows keyOfPtr_grows)

lemma entriesIn_lists:
  "entriesIn h c \<Longrightarrow>
   list_all (allocatedIn h) (elems (Create c)) \<and> list_all (allocatedIn h) (elems (Delete c))
   \<and> list_all (allocatedIn h) (elems (UpdateNew c))
   \<and> list_all (allocatedIn h) (elems (UpdateOld c))"
  by (simp add: entriesIn_def)

text \<open>What one more creation, one more deletion and one more update pair do to a key.\<close>

lemma counts_create:
  assumes "entriesIn h c" and "allocatedIn h e" and "keyOfPtr env h e = Some k0"
  shows "entriesIn h (c\<lparr>Create := append1 (Create c) e\<rparr>)
     \<and> length (ofKey env h k (elems (Create (c\<lparr>Create := append1 (Create c) e\<rparr>))))
         = length (ofKey env h k (elems (Create c))) + (if k = k0 then 1 else 0)"
  using assms by (auto simp: entriesIn_def elems_append1 ofKey_snoc)

lemma counts_delete:
  assumes "entriesIn h c" and "allocatedIn h e" and "keyOfPtr env h e = Some k0"
  shows "entriesIn h (c\<lparr>Delete := append1 (Delete c) e\<rparr>)
     \<and> length (ofKey env h k (elems (Delete (c\<lparr>Delete := append1 (Delete c) e\<rparr>))))
         = length (ofKey env h k (elems (Delete c))) + (if k = k0 then 1 else 0)"
  using assms by (auto simp: entriesIn_def elems_append1 ofKey_snoc)

lemma counts_pair:
  assumes g: "grows h h1" and ent: "entriesIn h c"
    and x: "allocatedIn h1 x" "keyOfPtr env h1 x = Some k0"
    and y: "allocatedIn h1 y" "keyOfPtr env h1 y = Some k0"
    and c1: "c1 = c\<lparr>UpdateNew := append1 (UpdateNew c) x, UpdateOld := append1 (UpdateOld c) y\<rparr>"
  shows "entriesIn h1 c1
     \<and> ofKey env h1 k (elems (Create c1)) = ofKey env h k (elems (Create c))
     \<and> ofKey env h1 k (elems (Delete c1)) = ofKey env h k (elems (Delete c))
     \<and> length (ofKey env h1 k (elems (UpdateNew c1)))
         = length (ofKey env h k (elems (UpdateNew c))) + (if k = k0 then 1 else 0)
     \<and> length (ofKey env h1 k (elems (UpdateOld c1)))
         = length (ofKey env h k (elems (UpdateOld c))) + (if k = k0 then 1 else 0)"
proof -
  note l = entriesIn_lists [OF ent]
  have old: "ofKey env h1 k (elems (Create c)) = ofKey env h k (elems (Create c))"
    "ofKey env h1 k (elems (Delete c)) = ofKey env h k (elems (Delete c))"
    "ofKey env h1 k (elems (UpdateNew c)) = ofKey env h k (elems (UpdateNew c))"
    "ofKey env h1 k (elems (UpdateOld c)) = ofKey env h k (elems (UpdateOld c))"
    using l by (simp_all add: ofKey_grows [OF g])
  have e: "entriesIn h1 c1"
    using entriesIn_grows [OF g ent] x(1) y(1) by (simp add: c1 entriesIn_def elems_append1)
  show ?thesis
    using e old x(2) y(2) by (simp add: c1 elems_append1 ofKey_snoc)
qed

text \<open>What the body of the loop does to a key.\<close>

lemma rowStep_counts:
  assumes step: "rowStep env p r (h, c, m) = Inr (h1, c1, m1)"
    and row: "rowFor env h k0 r"
    and ent: "entriesIn h c"
    and rc: "\<forall>h cs. cs \<noteq> [] \<longrightarrow> ResolveCreate env h cs \<in> set cs"
    and ru: "\<forall>h c cs. cs \<noteq> [] \<longrightarrow> ResolveUpdate env h c cs \<in> set cs"
  shows "entriesIn h1 c1
     \<and> length (ofKey env h1 k (elems (Create c1)))
         = length (ofKey env h k (elems (Create c))) + (if k = k0 then createDue r else 0)
     \<and> length (ofKey env h1 k (elems (Delete c1)))
         = length (ofKey env h k (elems (Delete c))) + (if k = k0 then deleteDue r else 0)
     \<and> (\<exists>n. n \<le> (if k = k0 then updateDue r else 0)
          \<and> length (ofKey env h1 k (elems (UpdateNew c1)))
              = length (ofKey env h k (elems (UpdateNew c))) + n
          \<and> length (ofKey env h1 k (elems (UpdateOld c1)))
              = length (ofKey env h k (elems (UpdateOld c))) + n)"
  using step
proof (cases rule: rowStep_cases)
  case create
  with row have ne: "candidates r \<noteq> []" by (simp add: rowFor_def)
  with rc have "ResolveCreate env h (candidates r) \<in> set (candidates r)" by blast
  with row have e: "allocatedIn h (ResolveCreate env h (candidates r))"
    "keyOfPtr env h (ResolveCreate env h (candidates r)) = Some k0"
    by (simp_all add: rowFor_def list_all_iff)
  from counts_create [OF ent e, of k] create show ?thesis
    by (simp add: createDue_def deleteDue_def updateDue_def)
next
  case (delete a)
  with row have e: "allocatedIn h (Some a)" "keyOfPtr env h (Some a) = Some k0"
    by (simp_all add: rowFor_def)
  from counts_delete [OF ent e, of k] delete show ?thesis
    by (simp add: createDue_def deleteDue_def updateDue_def)
next
  case (noop a u)
  with ent show ?thesis by (simp add: createDue_def deleteDue_def)
next
  case (update a u)
  from update(4) have g: "grows h h1" by (simp add: inheritOwner_grows)
  from ru update(2) have "ResolveUpdate env h (Some a) (candidates r) \<in> set (candidates r)"
    by blast
  with update(3) row have u: "allocatedIn h (Some u)" "keyOfPtr env h (Some u) = Some k0"
    by (simp_all add: rowFor_def list_all_iff)
  from update(1) row have a: "allocatedIn h (Some a)" "keyOfPtr env h (Some a) = Some k0"
    by (simp_all add: rowFor_def)
  have x: "allocatedIn h1 (Some u)" "keyOfPtr env h1 (Some u) = Some k0"
    using u by (simp_all add: allocatedIn_grows [OF g] keyOfPtr_grows [OF g])
  have y: "allocatedIn h1 (Some a)" "keyOfPtr env h1 (Some a) = Some k0"
    using a by (simp_all add: allocatedIn_grows [OF g] keyOfPtr_grows [OF g])
  from counts_pair [OF g ent x y update(6), of k] update(1,2) show ?thesis
    by (auto simp: createDue_def deleteDue_def updateDue_def)
next
  case (migrate a l)
  have g: "grows h h1" using step by (rule rowStep_grows)
  from migrate(1) row have a: "allocatedIn h (Some a)" "keyOfPtr env h (Some a) = Some k0"
    by (simp_all add: rowFor_def)
  have y: "allocatedIn h1 (Some a)" "keyOfPtr env h1 (Some a) = Some k0"
    using a by (simp_all add: allocatedIn_grows [OF g] keyOfPtr_grows [OF g])
  have x: "allocatedIn h1 (Some (length (recs h)))"
    "keyOfPtr env h1 (Some (length (recs h))) = Some k0"
    using a(2) by (simp_all add: migrate(7) allocatedIn_def keyOfPtr_def keyOf_def)
  from counts_pair [OF g ent x y migrate(8), of k] migrate(1,2) show ?thesis
    by (auto simp: createDue_def deleteDue_def updateDue_def)
qed

text \<open>What the loop does to a key.\<close>

lemma due_Cons:
  "k0 \<notin> fst ` set rows \<Longrightarrow>
   due f ((k0, r) # rows) k = (if k = k0 then f r else 0) + due f rows k"
  by (auto simp: due_def map_of_eq_None_iff [THEN iffD2])

lemma rowsLoop_counts:
  assumes "rowsLoop env p rows (h, c, m) = Inr (h', c', m')"
    and "distinct (map fst rows)"
    and "\<forall>kr \<in> set rows. rowFor env h (fst kr) (snd kr)"
    and "entriesIn h c"
    and rc: "\<forall>h cs. cs \<noteq> [] \<longrightarrow> ResolveCreate env h cs \<in> set cs"
    and ru: "\<forall>h c cs. cs \<noteq> [] \<longrightarrow> ResolveUpdate env h c cs \<in> set cs"
  shows "entriesIn h' c'
     \<and> length (ofKey env h' k (elems (Create c')))
         = length (ofKey env h k (elems (Create c))) + due createDue rows k
     \<and> length (ofKey env h' k (elems (Delete c')))
         = length (ofKey env h k (elems (Delete c))) + due deleteDue rows k
     \<and> (\<exists>n. n \<le> due updateDue rows k
          \<and> length (ofKey env h' k (elems (UpdateNew c')))
              = length (ofKey env h k (elems (UpdateNew c))) + n
          \<and> length (ofKey env h' k (elems (UpdateOld c')))
              = length (ofKey env h k (elems (UpdateOld c))) + n)"
  using assms(1-4)
proof (induction rows arbitrary: h c m)
  case Nil
  then show ?case by (simp add: due_def)
next
  case (Cons kr rows)
  obtain k0 r where kr: "kr = (k0, r)" by (cases kr)
  from Cons.prems(1) obtain h1 c1 m1 where
    s: "rowStep env p r (h, c, m) = Inr (h1, c1, m1)"
    and l: "rowsLoop env p rows (h1, c1, m1) = Inr (h', c', m')"
    by (auto simp: kr split: sum.splits)
  from Cons.prems(2) have d: "distinct (map fst rows)" and new: "k0 \<notin> fst ` set rows"
    by (simp_all add: kr)
  from Cons.prems(3) have row: "rowFor env h k0 r" by (simp add: kr)
  have g: "grows h h1" using s by (rule rowStep_grows)
  from Cons.prems(3) have rows: "\<forall>kr \<in> set rows. rowFor env h1 (fst kr) (snd kr)"
    by (simp add: rowFor_grows [OF g])
  from rowStep_counts [OF s row Cons.prems(4) rc ru, of k] obtain n1 where
    1: "entriesIn h1 c1"
    "length (ofKey env h1 k (elems (Create c1)))
       = length (ofKey env h k (elems (Create c))) + (if k = k0 then createDue r else 0)"
    "length (ofKey env h1 k (elems (Delete c1)))
       = length (ofKey env h k (elems (Delete c))) + (if k = k0 then deleteDue r else 0)"
    "n1 \<le> (if k = k0 then updateDue r else 0)"
    "length (ofKey env h1 k (elems (UpdateNew c1)))
       = length (ofKey env h k (elems (UpdateNew c))) + n1"
    "length (ofKey env h1 k (elems (UpdateOld c1)))
       = length (ofKey env h k (elems (UpdateOld c))) + n1"
    by blast
  from Cons.IH [OF l d rows 1(1)] obtain n2 where
    2: "entriesIn h' c'"
    "length (ofKey env h' k (elems (Create c')))
       = length (ofKey env h1 k (elems (Create c1))) + due createDue rows k"
    "length (ofKey env h' k (elems (Delete c')))
       = length (ofKey env h1 k (elems (Delete c1))) + due deleteDue rows k"
    "n2 \<le> due updateDue rows k"
    "length (ofKey env h' k (elems (UpdateNew c')))
       = length (ofKey env h1 k (elems (UpdateNew c1))) + n2"
    "length (ofKey env h' k (elems (UpdateOld c')))
       = length (ofKey env h1 k (elems (UpdateOld c1))) + n2"
    by blast
  have "n1 + n2 \<le> due updateDue (kr # rows) k"
    using 1(4) 2(4) by (simp add: kr due_Cons [OF new])
  moreover have "length (ofKey env h' k (elems (UpdateNew c')))
       = length (ofKey env h k (elems (UpdateNew c))) + (n1 + n2)"
    "length (ofKey env h' k (elems (UpdateOld c')))
       = length (ofKey env h k (elems (UpdateOld c))) + (n1 + n2)"
    using 1(5,6) 2(5,6) by simp_all
  ultimately have u: "\<exists>n. n \<le> due updateDue (kr # rows) k
          \<and> length (ofKey env h' k (elems (UpdateNew c')))
              = length (ofKey env h k (elems (UpdateNew c))) + n
          \<and> length (ofKey env h' k (elems (UpdateOld c')))
              = length (ofKey env h k (elems (UpdateOld c))) + n"
    by blast
  have "length (ofKey env h' k (elems (Create c')))
         = length (ofKey env h k (elems (Create c))) + due createDue (kr # rows) k"
    "length (ofKey env h' k (elems (Delete c')))
         = length (ofKey env h k (elems (Delete c))) + due deleteDue (kr # rows) k"
    using 1(2,3) 2(2,3) by (simp_all add: kr due_Cons [OF new])
  with 2(1) u show ?case by blast
qed

text \<open>When the loop returns.\<close>

lemma inheritOwner_returns:
  assumes "u < length (recs h)"
  shows "\<exists>h'. inheritOwner h a u = Inr h'"
proof -
  define h1 where "h1 = (if Labels (recs h ! u) = None then makeLabels h u else h)"
  define h2 where "h2 = (if Labels (recs h1 ! a) = None then makeLabels h1 a else h1)"
  have e: "inheritOwner h a u =
      (case Labels (recs h2 ! u) of
         None \<Rightarrow> Inl NilMapAssignment
       | Some l \<Rightarrow> Inr (setLabel h2 l OwnerLabelKey
                          (lookup (labelsOf h2 (recs h2 ! a)) OwnerLabelKey)))"
    by (simp only: inheritOwner_def Let_def h1_def h2_def)
  have 1: "Labels (recs h1 ! u) \<noteq> None" "u < length (recs h1)"
    using assms by (simp_all add: h1_def makeLabels_def)
  have "Labels (recs h2 ! u) \<noteq> None"
  proof (cases "a = u")
    case True
    with 1 show ?thesis by (auto simp: h2_def)
  next
    case False
    with 1 show ?thesis by (simp add: h2_def makeLabels_def)
  qed
  with e show ?thesis by (cases "Labels (recs h2 ! u)") simp_all
qed

lemma rowStep_returns:
  assumes row: "rowFor env h k0 r"
    and ru: "\<forall>h c cs. cs \<noteq> [] \<longrightarrow> ResolveUpdate env h c cs \<in> set cs"
    and old: "TXTOwnerMigrate p \<longrightarrow> TXTOwnerOld p \<noteq> []"
  shows "\<exists>st'. rowStep env p r (h, c, m) = Inr st'"
proof (cases "current r")
  case None
  then show ?thesis by (simp add: rowStep_def Let_def)
next
  case (Some a)
  show ?thesis
  proof (cases "candidates r = []")
    case True
    with Some show ?thesis by (simp add: rowStep_def Let_def)
  next
    case False
    show ?thesis
    proof (cases "TXTOwnerMigrate p
        \<and> lookup (labelsOf h (recs h ! a)) OwnerLabelKey = TXTOwnerOld p")
      case True
      with old have "lookup (labelsOf h (recs h ! a)) OwnerLabelKey \<noteq> []" by simp
      then have "Labels (recs h ! a) \<noteq> None"
        by (cases "Labels (recs h ! a)") (simp_all add: lookup_def lookupOk_def labelsOf_def)
      with True Some False show ?thesis
        by (auto simp: rowStep_def Let_def migrateRow_eq)
    next
      case no: False
      from ru False have "ResolveUpdate env h (Some a) (candidates r) \<in> set (candidates r)"
        by blast
      with row obtain u where u: "ResolveUpdate env h (Some a) (candidates r) = Some u"
        "u < length (recs h)"
        by (auto simp: rowFor_def list_all_iff allocatedIn_def split: option.splits)
      from inheritOwner_returns [OF u(2)] obtain h' where "inheritOwner h a u = Inr h'"
        by blast
      with no Some False u show ?thesis
        by (auto simp: rowStep_def Let_def updateRow_def)
    qed
  qed
qed

lemma rowsLoop_returns:
  assumes "\<forall>kr \<in> set rows. rowFor env h (fst kr) (snd kr)"
    and ru: "\<forall>h c cs. cs \<noteq> [] \<longrightarrow> ResolveUpdate env h c cs \<in> set cs"
    and old: "TXTOwnerMigrate p \<longrightarrow> TXTOwnerOld p \<noteq> []"
  shows "\<exists>st'. rowsLoop env p rows (h, c, m) = Inr st'"
  using assms(1)
proof (induction rows arbitrary: h c m)
  case Nil
  then show ?case by simp
next
  case (Cons kr rows)
  from Cons.prems have row: "rowFor env h (fst kr) (snd kr)" by simp
  from rowStep_returns [OF row ru old] obtain h1 c1 m1 where
    s: "rowStep env p (snd kr) (h, c, m) = Inr (h1, c1, m1)"
    by (metis prod_cases3)
  have g: "grows h h1" using s by (rule rowStep_grows)
  from Cons.prems have "\<forall>kr \<in> set rows. rowFor env h1 (fst kr) (snd kr)"
    by (simp add: rowFor_grows [OF g])
  from Cons.IH [OF this] s show ?case by simp
qed

text \<open>The rows of the table are the rows of their keys.\<close>

lemma ofKey_keys: "e \<in> set (ofKey env h k es) \<Longrightarrow> e \<in> set es \<and> keyOfPtr env h e = Some k"
  by (simp add: ofKey_def)

lemma currentOf_None: "(currentOf env h k es = None) = (ofKey env h k es = [])"
proof (cases "ofKey env h k es = []")
  case True
  then show ?thesis by (simp add: currentOf_def)
next
  case False
  then have "last (ofKey env h k es) \<in> set (ofKey env h k es)" by simp
  then have "keyOfPtr env h (last (ofKey env h k es)) = Some k" by (rule ofKey_keys [THEN conjunct2])
  then have "last (ofKey env h k es) \<noteq> None" by (auto simp: keyOfPtr_def)
  with False show ?thesis by (simp add: currentOf_def)
qed

lemma currentOf_key:
  "currentOf env h k es = None
   \<or> (currentOf env h k es \<in> set es \<and> keyOfPtr env h (currentOf env h k es) = Some k)"
proof (cases "ofKey env h k es = []")
  case True
  then show ?thesis by (simp add: currentOf_def)
next
  case False
  then have "last (ofKey env h k es) \<in> set (ofKey env h k es)" by simp
  from ofKey_keys [OF this] False show ?thesis by (simp add: currentOf_def)
qed

lemma buildTable_rowFor:
  assumes t: "buildTable env p h = Inr t"
    and c: "filterRecordsForPlan h (Current p) (Match p) (ManagedRecords p) = Inr currents"
    and d: "filterRecordsForPlan h (Desired p) (Match p) (ManagedRecords p) = Inr desireds"
    and al: "list_all (allocatedIn h) (Current p @ Desired p)"
  shows "\<forall>kr \<in> set t. rowFor env h (fst kr) (snd kr)"
proof
  fix kr assume kr: "kr \<in> set t"
  obtain k r where [simp]: "kr = (k, r)" by (cases kr)
  from kr have in_t: "(k, r) \<in> set t" by simp
  from buildTable_row [OF t c d in_t]
  have r: "current r = currentOf env h k currents" "candidates r = ofKey env h k desireds"
    by (simp_all add: candidatesOf_def)
  from filterRecordsForPlan_subset [OF c] filterRecordsForPlan_subset [OF d] al
  have in_h: "\<forall>e \<in> set currents. allocatedIn h e" "\<forall>e \<in> set desireds. allocatedIn h e"
    by (auto simp: list_all_iff)
  have 1: "list_all (\<lambda>e. allocatedIn h e \<and> keyOfPtr env h e = Some k) (candidates r)"
    using in_h(2) by (auto simp: r list_all_iff dest: ofKey_keys)
  have 2: "current r = None \<or> (allocatedIn h (current r) \<and> keyOfPtr env h (current r) = Some k)"
    using currentOf_key [of env h k currents] in_h(1) by (auto simp: r)
  from buildTable_nonempty_rows [OF t] in_t
  have 3: "current r \<noteq> None \<or> candidates r \<noteq> []" by fastforce
  from 1 2 3 show "rowFor env h (fst kr) (snd kr)" by (simp add: rowFor_def)
qed

text \<open>Visiting the rows in another order.\<close>

lemma map_of_same_set:
  assumes "distinct (map fst xs)" and "distinct (map fst ys)" and "set xs = set ys"
  shows "map_of xs k = map_of ys k"
proof (cases "map_of xs k")
  case None
  then have "k \<notin> fst ` set ys" using assms(3) by (simp add: map_of_eq_None_iff)
  then have "map_of ys k = None" by (simp add: map_of_eq_None_iff)
  with None show ?thesis by simp
next
  case (Some v)
  then have "(k, v) \<in> set ys" using assms(3) by (auto dest: map_of_SomeD)
  with assms(2) have "map_of ys k = Some v" by simp
  with Some show ?thesis by simp
qed

lemma reordered_rows:
  assumes "mset ys = mset xs" and "distinct (map fst xs)"
  shows "distinct (map fst ys) \<and> set ys = set xs \<and> due f ys k = due f xs k"
proof -
  from assms(1) have s: "set ys = set xs" by (rule mset_eq_setD)
  from assms(1) have "mset (map fst ys) = mset (map fst xs)" by simp
  with assms(2) have d: "distinct (map fst ys)" by (metis mset_eq_imp_distinct_iff)
  from map_of_same_set [OF d assms(2) s] have "due f ys k = due f xs k" by (simp add: due_def)
  with d s show ?thesis by simp
qed

text \<open>The outcomes, from the entries of a key.\<close>

lemma outcomes_entries:
  assumes "length (ofKey env h' k (elems (Create raw)))
           + length (ofKey env h' k (elems (Delete raw)))
           + length (ofKey env h' k (elems (UpdateNew raw))) \<le> 1"
    and "length (ofKey env h' k (elems (UpdateOld raw)))
           = length (ofKey env h' k (elems (UpdateNew raw)))"
  shows "outcomes env h h' raw k =
     (if ofKey env h' k (elems (Create raw)) \<noteq> [] then [DoCreate]
      else if ofKey env h' k (elems (Delete raw)) \<noteq> [] then [DoDelete]
      else if ofKey env h' k (elems (UpdateNew raw)) = [] then [NoOp]
      else if allocatedIn h (hd (ofKey env h' k (elems (UpdateNew raw)))) then [DoUpdate]
      else [DoMigrate])"
proof -
  define cr where "cr = ofKey env h' k (elems (Create raw))"
  define dl where "dl = ofKey env h' k (elems (Delete raw))"
  define un where "un = ofKey env h' k (elems (UpdateNew raw))"
  define uo where "uo = ofKey env h' k (elems (UpdateOld raw))"
  have o: "outcomes env h h' raw k =
      (if cr = [] \<and> dl = [] \<and> un = [] \<and> uo = [] then [NoOp] else [])
      @ (if cr \<noteq> [] then [DoCreate] else [])
      @ (if dl \<noteq> [] then [DoDelete] else [])
      @ (if filter (allocatedIn h) un \<noteq> [] then [DoUpdate] else [])
      @ (if filter (\<lambda>e. \<not> allocatedIn h e) un \<noteq> [] then [DoMigrate] else [])"
    by (simp add: outcomes_def applies_def cr_def dl_def un_def uo_def)
  from assms have l: "length cr + length dl + length un \<le> 1" "length uo = length un"
    by (simp_all add: cr_def dl_def un_def uo_def)
  consider "cr \<noteq> []" "dl = []" "un = []" "uo = []"
    | "cr = []" "dl \<noteq> []" "un = []" "uo = []"
    | "cr = []" "dl = []" "un = []" "uo = []"
    | e where "cr = []" "dl = []" "un = [e]"
    using l by (cases cr; cases dl; cases un; cases uo) auto
  then have "outcomes env h h' raw k =
     (if cr \<noteq> [] then [DoCreate]
      else if dl \<noteq> [] then [DoDelete]
      else if un = [] then [NoOp]
      else if allocatedIn h (hd un) then [DoUpdate]
      else [DoMigrate])"
    by cases (simp_all add: o)
  then show ?thesis by (simp only: cr_def dl_def un_def)
qed

text \<open>
  Claim C3. Take the table that \<^verbatim>\<open>Calculate\<close> builds from the filtered current and desired
  records, a loop that visits every row of the table once, in any order, a resolver that
  returns one of the candidates it is given, and a grouping key of some filtered current
  or desired record. The current record of the key is the last filtered current record of
  the key, its candidates are the filtered desired records of the key. Then change
  detection, the loop of lines 166 to 203, returns, unless migration is enabled with an
  empty old owner; and whenever it returns, exactly one of the five outcomes no-op,
  create, delete, update and migrate applies to the key in the lists of changes it leaves:
  \<open>Create\<close> has an entry of the key if and only if the key has no current record, and then
  it has one; \<open>Delete\<close> has an entry of the key if and only if the key has a current record
  and no candidates, and then it has one; and \<open>UpdateNew\<close> and \<open>UpdateOld\<close> have as many
  entries of the key, at most one, from a migration or from an update of content, and none
  unless the key has a current record and a candidate.
\<close>

theorem key_one_outcome:
  assumes t: "buildTable env p h = Inr t"
    and c: "filterRecordsForPlan h (Current p) (Match p) (ManagedRecords p) = Inr currents"
    and d: "filterRecordsForPlan h (Desired p) (Match p) (ManagedRecords p) = Inr desireds"
    and al: "list_all (allocatedIn h) (Current p @ Desired p)"
    and ord: "mset (rangeOrder env t) = mset t"
    and rc: "\<forall>h cs. cs \<noteq> [] \<longrightarrow> ResolveCreate env h cs \<in> set cs"
    and ru: "\<forall>h c cs. cs \<noteq> [] \<longrightarrow> ResolveUpdate env h c cs \<in> set cs"
    and key: "ofKey env h k currents \<noteq> [] \<or> ofKey env h k desireds \<noteq> []"
  shows "((TXTOwnerMigrate p \<longrightarrow> TXTOwnerOld p \<noteq> [])
            \<longrightarrow> (\<exists>st. detectChanges env p h t = Inr st))
     \<and> (\<forall>h' raw mig. detectChanges env p h t = Inr (h', raw, mig) \<longrightarrow>
          length (outcomes env h h' raw k) = 1
          \<and> (DoCreate \<in> set (outcomes env h h' raw k)
               \<longleftrightarrow> currentOf env h k currents = None)
          \<and> (DoDelete \<in> set (outcomes env h h' raw k)
               \<longleftrightarrow> currentOf env h k currents \<noteq> None \<and> candidatesOf env h k desireds = [])
          \<and> (DoUpdate \<in> set (outcomes env h h' raw k)
                \<or> DoMigrate \<in> set (outcomes env h h' raw k)
               \<longrightarrow> currentOf env h k currents \<noteq> None \<and> candidatesOf env h k desireds \<noteq> [])
          \<and> (currentOf env h k currents \<noteq> None \<and> candidatesOf env h k desireds \<noteq> []
               \<longrightarrow> set (outcomes env h h' raw k) \<subseteq> {NoOp, DoUpdate, DoMigrate})
          \<and> length (ofKey env h' k (elems (Create raw)))
              = (if currentOf env h k currents = None then 1 else 0)
          \<and> length (ofKey env h' k (elems (Delete raw)))
              = (if currentOf env h k currents \<noteq> None \<and> candidatesOf env h k desireds = []
                 then 1 else 0)
          \<and> length (ofKey env h' k (elems (UpdateOld raw)))
              = length (ofKey env h' k (elems (UpdateNew raw)))
          \<and> length (ofKey env h' k (elems (UpdateNew raw)))
              \<le> (if currentOf env h k currents \<noteq> None \<and> candidatesOf env h k desireds \<noteq> []
                  then 1 else 0))"
proof -
  define cur where "cur = currentOf env h k currents"
  define cands where "cands = candidatesOf env h k desireds"
  let ?ro = "rangeOrder env t"
  from buildTable_keys [OF t] have d0: "distinct (map fst t)" by simp
  note ro = reordered_rows [OF ord d0]
  from ro have d1: "distinct (map fst ?ro)" and s1: "set ?ro = set t" by simp_all
  from buildTable_rowFor [OF t c d al] s1
  have rows: "\<forall>kr \<in> set ?ro. rowFor env h (fst kr) (snd kr)" by simp
  from key have m: "map_of t k = Some \<lparr>current = cur, candidates = cands\<rparr>"
    by (auto simp: buildTable_map_of [OF t c d] cur_def cands_def)
  from key have ne: "cur \<noteq> None \<or> cands \<noteq> []"
    by (auto simp: cur_def cands_def candidatesOf_def currentOf_None)
  have dues: "due createDue ?ro k = (if cur = None then 1 else 0)"
    "due deleteDue ?ro k = (if cur \<noteq> None \<and> cands = [] then 1 else 0)"
    "due updateDue ?ro k = (if cur \<noteq> None \<and> cands \<noteq> [] then 1 else 0)"
    by (simp_all add: ro [THEN conjunct2, THEN conjunct2])
       (simp_all add: due_def m createDue_def deleteDue_def updateDue_def)
  have total: "\<exists>st. detectChanges env p h t = Inr st"
    if "TXTOwnerMigrate p \<longrightarrow> TXTOwnerOld p \<noteq> []"
    unfolding detectChanges_def using rows ru that by (rule rowsLoop_returns)
  have main: "length (outcomes env h h' raw k) = 1
      \<and> (DoCreate \<in> set (outcomes env h h' raw k) \<longleftrightarrow> cur = None)
      \<and> (DoDelete \<in> set (outcomes env h h' raw k) \<longleftrightarrow> cur \<noteq> None \<and> cands = [])
      \<and> (DoUpdate \<in> set (outcomes env h h' raw k) \<or> DoMigrate \<in> set (outcomes env h h' raw k)
           \<longrightarrow> cur \<noteq> None \<and> cands \<noteq> [])
      \<and> (cur \<noteq> None \<and> cands \<noteq> [] \<longrightarrow> set (outcomes env h h' raw k) \<subseteq> {NoOp, DoUpdate, DoMigrate})
      \<and> length (ofKey env h' k (elems (Create raw))) = (if cur = None then 1 else 0)
      \<and> length (ofKey env h' k (elems (Delete raw)))
          = (if cur \<noteq> None \<and> cands = [] then 1 else 0)
      \<and> length (ofKey env h' k (elems (UpdateOld raw)))
          = length (ofKey env h' k (elems (UpdateNew raw)))
      \<and> length (ofKey env h' k (elems (UpdateNew raw)))
          \<le> (if cur \<noteq> None \<and> cands \<noteq> [] then 1 else 0)"
    if det: "detectChanges env p h t = Inr (h', raw, mig)" for h' raw mig
  proof -
    from det have loop: "rowsLoop env p ?ro (h, emptyChanges, False) = Inr (h', raw, mig)"
      by (simp add: detectChanges_def)
    have ent: "entriesIn h emptyChanges"
      by (simp add: entriesIn_def emptyChanges_def elems_def)
    have z: "ofKey env h k (elems (Create emptyChanges)) = []"
      "ofKey env h k (elems (Delete emptyChanges)) = []"
      "ofKey env h k (elems (UpdateNew emptyChanges)) = []"
      "ofKey env h k (elems (UpdateOld emptyChanges)) = []"
      by (simp_all add: emptyChanges_def elems_def ofKey_def)
    from rowsLoop_counts [OF loop d1 rows ent rc ru, of k] obtain n where
      cr: "length (ofKey env h' k (elems (Create raw))) = (if cur = None then 1 else 0)"
      and dl: "length (ofKey env h' k (elems (Delete raw)))
          = (if cur \<noteq> None \<and> cands = [] then 1 else 0)"
      and n: "n \<le> (if cur \<noteq> None \<and> cands \<noteq> [] then 1 else 0)"
      and un: "length (ofKey env h' k (elems (UpdateNew raw))) = n"
      and uo: "length (ofKey env h' k (elems (UpdateOld raw))) = n"
      by (auto simp: z dues)
    have sum: "length (ofKey env h' k (elems (Create raw)))
           + length (ofKey env h' k (elems (Delete raw)))
           + length (ofKey env h' k (elems (UpdateNew raw))) \<le> 1"
      using n by (simp add: cr dl un split: if_splits)
    have same: "length (ofKey env h' k (elems (UpdateOld raw)))
           = length (ofKey env h' k (elems (UpdateNew raw)))"
      by (simp add: un uo)
    note o = outcomes_entries [OF sum same, of h]
    have e: "(ofKey env h' k (elems (Create raw)) \<noteq> []) = (cur = None)"
      "(ofKey env h' k (elems (Delete raw)) \<noteq> []) = (cur \<noteq> None \<and> cands = [])"
      using cr dl
      by (cases "ofKey env h' k (elems (Create raw))", simp_all split: if_splits)
         (cases "ofKey env h' k (elems (Delete raw))", simp_all split: if_splits)+
    have u: "ofKey env h' k (elems (UpdateNew raw)) \<noteq> [] \<longrightarrow> cur \<noteq> None \<and> cands \<noteq> []"
      using n un by (cases "ofKey env h' k (elems (UpdateNew raw))") (simp_all split: if_splits)
    have "length (outcomes env h h' raw k) = 1
      \<and> (DoCreate \<in> set (outcomes env h h' raw k) \<longleftrightarrow> cur = None)
      \<and> (DoDelete \<in> set (outcomes env h h' raw k) \<longleftrightarrow> cur \<noteq> None \<and> cands = [])
      \<and> (DoUpdate \<in> set (outcomes env h h' raw k) \<or> DoMigrate \<in> set (outcomes env h h' raw k)
           \<longrightarrow> cur \<noteq> None \<and> cands \<noteq> [])
      \<and> (cur \<noteq> None \<and> cands \<noteq> [] \<longrightarrow> set (outcomes env h h' raw k) \<subseteq> {NoOp, DoUpdate, DoMigrate})"
      using u ne unfolding o e by auto
    with cr dl same n un show ?thesis by simp
  qed
  from total main show ?thesis unfolding cur_def cands_def by blast
qed

lemma filter_current_D:
  "filterRecordsForPlan heapD (Current (defaultDomainFilter planD))
     (Match (defaultDomainFilter planD)) (ManagedRecords (defaultDomainFilter planD)) = Inr [Some 0]"
  by (simp add: planD_def heapD_def sample_defs Match_def MatchAllDomainFilters_def)

lemma filter_desired_D:
  "filterRecordsForPlan heapD (Desired (defaultDomainFilter planD))
     (Match (defaultDomainFilter planD)) (ManagedRecords (defaultDomainFilter planD)) = Inr [Some 1]"
  by (simp add: planD_def heapD_def sample_defs Match_def MatchAllDomainFilters_def)

lemma sampleEnv_create:
  "\<forall>h cs. cs \<noteq> [] \<longrightarrow> ResolveCreate sampleEnv h cs \<in> set cs"
  by (auto simp: sampleEnv_def firstCandidate_def split: list.splits)

lemma keys_D:
  "keyOfPtr sampleEnv heapD (Some 0) = Some fooKey
   \<and> keyOfPtr sampleEnv heapD (Some 1) = Some fooKey
   \<and> keyOfPtr sampleEnv heapD (Some (Suc 0)) = Some fooKey
   \<and> keyOfPtr sampleEnv storeD (Some 0) = Some fooKey
   \<and> keyOfPtr sampleEnv storeD (Some 2) = Some fooKey"
  by (simp add: keyOfPtr_def keyOf_def heapD_def storeD_def fooRecord_def fooKey_def normalize_foo)

lemma outcomes_D: "outcomes sampleEnv heapD storeD changesD fooKey = [DoMigrate]"
  by (simp add: outcomes_def applies_def ofKey_def keys_D elems_def changesD_def allocatedIn_def)
     (simp add: heapD_def)

text \<open>Claim C3 on plan D: the key of its two records migrates, and nothing else.\<close>

theorem key_one_outcome_witness:
  "buildTable sampleEnv (defaultDomainFilter planD) heapD = Inr tableD
   \<and> list_all (allocatedIn heapD)
       (Current (defaultDomainFilter planD) @ Desired (defaultDomainFilter planD))
   \<and> mset (rangeOrder sampleEnv tableD) = mset tableD
   \<and> ofKey sampleEnv heapD fooKey [Some 0] = [Some 0]
   \<and> currentOf sampleEnv heapD fooKey [Some 0] = Some 0
   \<and> candidatesOf sampleEnv heapD fooKey [Some 1] = [Some 1]
   \<and> TXTOwnerOld (defaultDomainFilter planD) = ''old''
   \<and> detectChanges sampleEnv (defaultDomainFilter planD) heapD tableD
       = Inr (storeD, changesD, True)
   \<and> outcomes sampleEnv heapD storeD changesD fooKey = [DoMigrate]
   \<and> length (outcomes sampleEnv heapD storeD changesD fooKey) = 1"
proof -
  let ?p = "defaultDomainFilter planD"
  have al: "list_all (allocatedIn heapD) (Current ?p @ Desired ?p)"
    by (simp add: planD_def heapD_def sample_defs allocatedIn_def)
  have ord: "mset (rangeOrder sampleEnv tableD) = mset tableD"
    by (simp add: rangeOrder_sample)
  have k: "ofKey sampleEnv heapD fooKey [Some 0] = [Some 0]"
    "currentOf sampleEnv heapD fooKey [Some 0] = Some 0"
    "candidatesOf sampleEnv heapD fooKey [Some 1] = [Some 1]"
    by (simp_all add: currentOf_def candidatesOf_def ofKey_def keys_D)
  then have key: "ofKey sampleEnv heapD fooKey [Some 0] \<noteq> []
      \<or> ofKey sampleEnv heapD fooKey [Some 1] \<noteq> []" by simp
  have old: "TXTOwnerOld ?p = ''old''" by (simp add: planD_def sample_defs)
  from key_one_outcome [OF table_D filter_current_D filter_desired_D al ord
      sampleEnv_create sampleEnv_resolver key]
  have "length (outcomes sampleEnv heapD storeD changesD fooKey) = 1"
    using detect_D by blast
  with al ord k old table_D detect_D outcomes_D show ?thesis by simp
qed

end
